theory Spec2Isabelle
  imports Main "HOL-Library.Word"
begin

section \<open>The microut engine (microut.h)\<close>

subsection \<open>Descriptors\<close>

text \<open>
  The counters of both descriptor structures, and the index of the runner's loop, are C
  \<^verbatim>\<open>unsigned int\<close>: 32 bits on the usual targets, and \<^verbatim>\<open>++\<close> wraps around.
\<close>

type_synonym uint = "32 word"

text \<open>
  The trace of a run. It holds what the observer macros of \<^verbatim>\<open>config.h\<close> are given
  when they fire and, so that properties of the calls can be stated, a record of every
  call the runner makes through one of the suite descriptor's function pointers. A test
  is named by its index in \<^verbatim>\<open>test_descs\<close>.
\<close>

datatype event =
    OnSuccessfulAssert string
  | OnFailedAssert string
  | OnSuccessfulTest nat
  | OnFailedTest nat
  | CallStartup
  | CallTeardown
  | CallBeforeEach nat
  | CallFunc nat
  | CallAfterEach nat

text \<open>
  A user function (\<^verbatim>\<open>UT_TEST\<close>, \<^verbatim>\<open>UT_STARTUP\<close>, \<^verbatim>\<open>UT_TEARDOWN\<close>, \<^verbatim>\<open>UT_BEFORE_EACH\<close>,
  \<^verbatim>\<open>UT_AFTER_EACH\<close>) is the sequence of statements it executes: checks made with
  \<^verbatim>\<open>UT_ASSERT\<close>, whose condition reads the state \<open>'u\<close> of the program under test, and
  other statements, which change that state. A user function touches the descriptor it
  is given only through \<^verbatim>\<open>UT_ASSERT\<close>.
\<close>

datatype 'u stmt =
    UT_ASSERT "'u \<Rightarrow> bool" string
  | Exec "'u \<Rightarrow> 'u"

type_synonym 'u ut_test_func = "'u stmt list"

type_synonym 'u ut_test_suite_func = "'u stmt list"

text \<open>
  The three fields \<^verbatim>\<open>UT_ASSERT\<close> and the inspection macros read and write have the same
  names in \<^verbatim>\<open>struct __ut_test_desc\<close> and \<^verbatim>\<open>struct __ut_test_suite_desc\<close>; the macros
  work on either through the pointer \<^verbatim>\<open>desc\<close>. They are the common part of both records;
  the other fields are those of the C structures (\<^verbatim>\<open>file\<close> and \<^verbatim>\<open>line\<close> under the names
  \<open>src_file\<close> and \<open>src_line\<close>, the suite's \<^verbatim>\<open>name\<close> and \<^verbatim>\<open>description\<close> under the
  names \<open>suite_name\<close> and \<open>suite_description\<close>).
\<close>

record ut_counters =
  started :: bool
  performed_count :: uint
  successed_count :: uint

record 'u ut_test_desc = ut_counters +
  name :: string
  description :: string
  src_file :: string
  src_line :: nat
  func :: "'u ut_test_func"

text \<open>
  \<open>test_descs\<close> holds the entries of the array before \<^verbatim>\<open>UT_TEST_SUITE_END\<close>, the entry
  whose \<^verbatim>\<open>func\<close> is \<^verbatim>\<open>NULL\<close>: \<^verbatim>\<open>test_descs[i].func != NULL\<close> is \<open>i < length test_descs\<close>.
\<close>

record 'u ut_test_suite_desc = ut_counters +
  suite_name :: string
  suite_description :: string
  startup :: "'u ut_test_suite_func"
  teardown :: "'u ut_test_suite_func"
  before_each :: "'u ut_test_func"
  after_each :: "'u ut_test_func"
  test_descs :: "'u ut_test_desc list"

text \<open>
  The memory the runner works on: the suite's descriptor (with its array of test
  descriptors), the state of the program under test, and what has been reported so far.
\<close>

record 'u machine =
  suite :: "'u ut_test_suite_desc"
  prog :: 'u
  trace :: "event list"

subsection \<open>Observers\<close>

text \<open>
  Modelled from the spec: \<^verbatim>\<open>config.h\<close>, which defines the observer macros
  \<^verbatim>\<open>UT_ON_SUCCESSFUL_ASSERT\<close>, \<^verbatim>\<open>UT_ON_FAILED_ASSERT\<close>, \<^verbatim>\<open>UT_ON_SUCCESSFUL_TEST\<close> and
  \<^verbatim>\<open>UT_ON_FAILED_TEST\<close>, is not part of the sources. The specification describes them
  as pure side-effect points (reporting) on which no control-flow decision depends: each
  one appends its report to the trace.
\<close>

definition UT_ON_SUCCESSFUL_ASSERT :: "string \<Rightarrow> event list \<Rightarrow> event list" where
  "UT_ON_SUCCESSFUL_ASSERT message out = out @ [OnSuccessfulAssert message]"

definition UT_ON_FAILED_ASSERT :: "string \<Rightarrow> event list \<Rightarrow> event list" where
  "UT_ON_FAILED_ASSERT message out = out @ [OnFailedAssert message]"

definition UT_ON_SUCCESSFUL_TEST :: "nat \<Rightarrow> event list \<Rightarrow> event list" where
  "UT_ON_SUCCESSFUL_TEST i out = out @ [OnSuccessfulTest i]"

definition UT_ON_FAILED_TEST :: "nat \<Rightarrow> event list \<Rightarrow> event list" where
  "UT_ON_FAILED_TEST i out = out @ [OnFailedTest i]"

subsection \<open>UT_ASSERT and the functions that use it\<close>

text \<open>
  \<open>call body (d, u, out)\<close> runs a user function with \<^verbatim>\<open>desc\<close> pointing to the
  descriptor \<open>d\<close>. The third equation is the expansion of \<^verbatim>\<open>UT_ASSERT\<close>:
  \<^verbatim>\<open>desc->performed_count++\<close>, then either \<^verbatim>\<open>desc->successed_count++\<close> and the
  success observer, or the failure observer and \<^verbatim>\<open>return\<close>, which leaves the function:
  the statements after it are not run.
\<close>

fun call :: "'u stmt list \<Rightarrow> 'd ut_counters_scheme \<times> 'u \<times> event list
    \<Rightarrow> 'd ut_counters_scheme \<times> 'u \<times> event list" where
  "call [] (d, u, out) = (d, u, out)"
| "call (Exec f # body) (d, u, out) = call body (d, f u, out)"
| "call (UT_ASSERT assertion message # body) (d, u, out) =
     (let d1 = d\<lparr>performed_count := performed_count d + 1\<rparr> in
      if assertion u
      then call body (d1\<lparr>successed_count := successed_count d1 + 1\<rparr>, u,
                      UT_ON_SUCCESSFUL_ASSERT message out)
      else (d1, u, UT_ON_FAILED_ASSERT message out))"

subsection \<open>Inspection macros\<close>

definition UT_IS_TEST_STARTED :: "'u ut_test_desc \<Rightarrow> bool" where
  "UT_IS_TEST_STARTED test_desc = started test_desc"

definition UT_IS_TEST_SKIPPED :: "'u ut_test_desc \<Rightarrow> bool" where
  "UT_IS_TEST_SKIPPED test_desc = (\<not> UT_IS_TEST_STARTED test_desc)"

definition UT_IS_TEST_SUCCESSED :: "'u ut_test_desc \<Rightarrow> bool" where
  "UT_IS_TEST_SUCCESSED test_desc =
     (UT_IS_TEST_STARTED test_desc \<and> performed_count test_desc = successed_count test_desc)"

definition UT_IS_TEST_FAILED :: "'u ut_test_desc \<Rightarrow> bool" where
  "UT_IS_TEST_FAILED test_desc = (\<not> UT_IS_TEST_SUCCESSED test_desc)"

definition UT_IS_TEST_SUITE_STARTED :: "'u ut_test_suite_desc \<Rightarrow> bool" where
  "UT_IS_TEST_SUITE_STARTED test_suite_desc = started test_suite_desc"

definition UT_IS_TEST_SUITE_SKIPPED :: "'u ut_test_suite_desc \<Rightarrow> bool" where
  "UT_IS_TEST_SUITE_SKIPPED test_suite_desc = (\<not> UT_IS_TEST_SUITE_STARTED test_suite_desc)"

definition UT_IS_TEST_SUITE_SUCCESSED :: "'u ut_test_suite_desc \<Rightarrow> bool" where
  "UT_IS_TEST_SUITE_SUCCESSED test_suite_desc =
     (UT_IS_TEST_SUITE_STARTED test_suite_desc
      \<and> performed_count test_suite_desc = successed_count test_suite_desc)"

definition UT_IS_TEST_SUITE_FAILED :: "'u ut_test_suite_desc \<Rightarrow> bool" where
  "UT_IS_TEST_SUITE_FAILED test_suite_desc = (\<not> UT_IS_TEST_SUITE_SUCCESSED test_suite_desc)"

subsection \<open>The runner\<close>

text \<open>
  Calls through the function pointers of the suite descriptor: \<open>report\<close> records the
  call in the trace, \<open>call_suite_func\<close> runs a function on the suite descriptor and
  \<open>call_test_func\<close> on the descriptor \<^verbatim>\<open>&test_descs[i]\<close>. The loop calls the latter
  only for \<open>i < length test_descs\<close>, an entry before the terminating one.
\<close>

definition report :: "event \<Rightarrow> 'u machine \<Rightarrow> 'u machine" where
  "report e m = m\<lparr>trace := trace m @ [e]\<rparr>"

definition call_suite_func :: "'u ut_test_suite_func \<Rightarrow> 'u machine \<Rightarrow> 'u machine" where
  "call_suite_func f m =
     (case call f (suite m, prog m, trace m) of
        (d, u, out) \<Rightarrow> \<lparr>suite = d, prog = u, trace = out\<rparr>)"

definition call_test_func :: "'u ut_test_func \<Rightarrow> nat \<Rightarrow> 'u machine \<Rightarrow> 'u machine" where
  "call_test_func f i m =
     (case call f (test_descs (suite m) ! i, prog m, trace m) of
        (t, u, out) \<Rightarrow>
          \<lparr>suite = (suite m)\<lparr>test_descs := (test_descs (suite m))[i := t]\<rparr>,
           prog = u, trace = out\<rparr>)"

text \<open>
  The body of the \<^verbatim>\<open>for\<close> loop, for \<^verbatim>\<open>test_desc = &test_descs[i]\<close>, in its steps:
  the test is declared started and counted in the suite; \<^verbatim>\<open>before_each\<close>; the test's
  function unless the test has already failed; \<^verbatim>\<open>after_each\<close>; the tally.
\<close>

definition start_test :: "nat \<Rightarrow> 'u machine \<Rightarrow> 'u machine" where
  "start_test i m =
     (let s = suite m;
          test_desc = (test_descs s ! i)
            \<lparr>started := True, performed_count := 0, successed_count := 0\<rparr>
      in m\<lparr>suite := s\<lparr>test_descs := (test_descs s)[i := test_desc],
                       performed_count := performed_count s + 1\<rparr>\<rparr>)"

definition run_before_each :: "nat \<Rightarrow> 'u machine \<Rightarrow> 'u machine" where
  "run_before_each i m =
     call_test_func (before_each (suite m)) i (report (CallBeforeEach i) m)"

definition run_func :: "nat \<Rightarrow> 'u machine \<Rightarrow> 'u machine" where
  "run_func i m =
     (if UT_IS_TEST_SUCCESSED (test_descs (suite m) ! i)
      then call_test_func (func (test_descs (suite m) ! i)) i (report (CallFunc i) m)
      else m)"

definition run_after_each :: "nat \<Rightarrow> 'u machine \<Rightarrow> 'u machine" where
  "run_after_each i m =
     call_test_func (after_each (suite m)) i (report (CallAfterEach i) m)"

definition tally_test :: "nat \<Rightarrow> 'u machine \<Rightarrow> 'u machine" where
  "tally_test i m =
     (if UT_IS_TEST_SUCCESSED (test_descs (suite m) ! i)
      then m\<lparr>suite := (suite m)\<lparr>successed_count := successed_count (suite m) + 1\<rparr>,
             trace := UT_ON_SUCCESSFUL_TEST i (trace m)\<rparr>
      else m\<lparr>trace := UT_ON_FAILED_TEST i (trace m)\<rparr>)"

definition run_test :: "nat \<Rightarrow> 'u machine \<Rightarrow> 'u machine" where
  "run_test i m =
     tally_test i (run_after_each i (run_func i (run_before_each i (start_test i m))))"

text \<open>
  The loop \<^verbatim>\<open>for (unsigned int i = 0; test_descs[i].func != NULL; ++i)\<close>. The index
  is an \<^verbatim>\<open>unsigned int\<close> and wraps around, so the loop need not end: \<open>None\<close> is the
  run that never leaves it.
\<close>

partial_function (option) run_tests :: "uint \<Rightarrow> 'u machine \<Rightarrow> 'u machine option" where
  "run_tests i m =
     (if unat i < length (test_descs (suite m))
      then run_tests (i + 1) (run_test (unat i) m)
      else Some m)"

declare run_tests.simps [code]

definition start_suite :: "'u machine \<Rightarrow> 'u machine" where
  "start_suite m =
     m\<lparr>suite := (suite m)\<lparr>started := True, performed_count := 0, successed_count := 0\<rparr>\<rparr>"

definition run_startup :: "'u machine \<Rightarrow> 'u machine" where
  "run_startup m = call_suite_func (startup (suite m)) (report CallStartup m)"

definition run_teardown :: "'u machine \<Rightarrow> 'u machine" where
  "run_teardown m = call_suite_func (teardown (suite m)) (report CallTeardown m)"

text \<open>\<^verbatim>\<open>__ut_run_test_suite\<close>: the verdict and the memory it leaves.\<close>

definition ut_run_test_suite :: "'u machine \<Rightarrow> (bool \<times> 'u machine) option" where
  "ut_run_test_suite m =
     (let m1 = run_startup (start_suite m) in
      if \<not> UT_IS_TEST_SUITE_SUCCESSED (suite m1) then Some (False, m1)
      else case run_tests 0 m1 of
             None \<Rightarrow> None
           | Some m2 \<Rightarrow>
               (let m3 = run_teardown m2
                in Some (UT_IS_TEST_SUITE_SUCCESSED (suite m3), m3)))"

subsection \<open>What a user function does, in closed form\<close>

text \<open>
  Read off \<open>call\<close>: how many checks of a function hold before it returns, whether it
  is left by a failed check, the state of the program under test it leaves, and what
  its checks report.
\<close>

fun passes :: "'u stmt list \<Rightarrow> 'u \<Rightarrow> nat" where
  "passes [] u = 0"
| "passes (Exec f # body) u = passes body (f u)"
| "passes (UT_ASSERT assertion message # body) u =
     (if assertion u then Suc (passes body u) else 0)"

fun fails :: "'u stmt list \<Rightarrow> 'u \<Rightarrow> bool" where
  "fails [] u = False"
| "fails (Exec f # body) u = fails body (f u)"
| "fails (UT_ASSERT assertion message # body) u =
     (if assertion u then fails body u else True)"

fun effect :: "'u stmt list \<Rightarrow> 'u \<Rightarrow> 'u" where
  "effect [] u = u"
| "effect (Exec f # body) u = effect body (f u)"
| "effect (UT_ASSERT assertion message # body) u =
     (if assertion u then effect body u else u)"

fun reports :: "'u stmt list \<Rightarrow> 'u \<Rightarrow> event list" where
  "reports [] u = []"
| "reports (Exec f # body) u = reports body (f u)"
| "reports (UT_ASSERT assertion message # body) u =
     (if assertion u then OnSuccessfulAssert message # reports body u
      else [OnFailedAssert message])"

text \<open>The number of checks a function performs: those that hold, and the failed one.\<close>

definition checks :: "'u stmt list \<Rightarrow> 'u \<Rightarrow> nat" where
  "checks body u = passes body u + (if fails body u then 1 else 0)"

subsection \<open>Points of a run\<close>

text \<open>
  The memory when \<^verbatim>\<open>startup\<close> has returned, when the loop reaches test \<open>i\<close>, and when
  the loop is left.
\<close>

definition after_startup :: "'u machine \<Rightarrow> 'u machine" where
  "after_startup m = run_startup (start_suite m)"

definition before_test :: "nat \<Rightarrow> 'u machine \<Rightarrow> 'u machine" where
  "before_test i m = fold run_test [0..<i] (after_startup m)"

definition after_tests :: "'u machine \<Rightarrow> 'u machine" where
  "after_tests m = before_test (length (test_descs (suite m))) m"

text \<open>
  The memory during the pass of the loop body for test \<open>i\<close> that starts from \<open>m\<close>: when
  \<^verbatim>\<open>before_each\<close> has returned and the runner decides whether to call the test's
  function, and when it goes on to call \<^verbatim>\<open>after_each\<close>.
\<close>

definition at_func :: "nat \<Rightarrow> 'u machine \<Rightarrow> 'u machine" where
  "at_func i m = run_before_each i (start_test i m)"

definition at_after_each :: "nat \<Rightarrow> 'u machine \<Rightarrow> 'u machine" where
  "at_after_each i m = run_func i (at_func i m)"

text \<open>The tests whose \<^verbatim>\<open>before_each\<close> call is reported, in the order of the reports.\<close>

fun attempted :: "event list \<Rightarrow> nat list" where
  "attempted [] = []"
| "attempted (CallBeforeEach i # es) = i # attempted es"
| "attempted (e # es) = attempted es"

subsection \<open>Every point of a run\<close>

text \<open>
  \<open>call_points body (d, u, out)\<close> lists what \<open>call body (d, u, out)\<close> goes through: the
  descriptor, the state of the program under test and the reports on entry, after each
  statement, and inside \<^verbatim>\<open>UT_ASSERT\<close> between \<^verbatim>\<open>desc->performed_count++\<close> and
  \<^verbatim>\<open>desc->successed_count++\<close>. The last of them is what \<open>call\<close> returns.
\<close>

fun call_points :: "'u stmt list \<Rightarrow> 'd ut_counters_scheme \<times> 'u \<times> event list
    \<Rightarrow> ('d ut_counters_scheme \<times> 'u \<times> event list) list" where
  "call_points [] (d, u, out) = [(d, u, out)]"
| "call_points (Exec f # body) (d, u, out) = (d, u, out) # call_points body (d, f u, out)"
| "call_points (UT_ASSERT assertion message # body) (d, u, out) =
     (let d1 = d\<lparr>performed_count := performed_count d + 1\<rparr> in
      (d, u, out) # (d1, u, out) #
      (if assertion u
       then call_points body (d1\<lparr>successed_count := successed_count d1 + 1\<rparr>, u,
                             UT_ON_SUCCESSFUL_ASSERT message out)
       else [(d1, u, UT_ON_FAILED_ASSERT message out)]))"











subsection \<open>Declaring a suite\<close>

text \<open>
  \<^verbatim>\<open>UT_ADD_TEST\<close> and \<^verbatim>\<open>UT_DECLARE_TEST_SUITE\<close> initialise the descriptors: not
  started, both counters 0. A program starts with the declared suite in memory and
  nothing reported.
\<close>

definition UT_ADD_TEST :: "string \<Rightarrow> string \<Rightarrow> string \<Rightarrow> nat \<Rightarrow> 'u ut_test_func
    \<Rightarrow> 'u ut_test_desc" where
  "UT_ADD_TEST test descr f l fn =
     \<lparr>started = False, performed_count = 0, successed_count = 0,
      name = test, description = descr, src_file = f, src_line = l, func = fn\<rparr>"

definition UT_DECLARE_TEST_SUITE :: "string \<Rightarrow> string \<Rightarrow> 'u ut_test_suite_func
    \<Rightarrow> 'u ut_test_suite_func \<Rightarrow> 'u ut_test_func \<Rightarrow> 'u ut_test_func
    \<Rightarrow> 'u ut_test_desc list \<Rightarrow> 'u ut_test_suite_desc" where
  "UT_DECLARE_TEST_SUITE test_suite descr su td be ae tests =
     \<lparr>started = False, performed_count = 0, successed_count = 0,
      suite_name = test_suite, suite_description = descr,
      startup = su, teardown = td, before_each = be, after_each = ae,
      test_descs = tests\<rparr>"

definition loaded :: "'u ut_test_suite_desc \<Rightarrow> 'u \<Rightarrow> 'u machine" where
  "loaded s u = \<lparr>suite = s, prog = u, trace = []\<rparr>"

subsection \<open>Example suites\<close>

text \<open>A check that holds and one that does not, whatever the program state.\<close>

definition holds :: "nat stmt" where
  "holds = UT_ASSERT (\<lambda>u. True) ''holds''"

definition breaks :: "nat stmt" where
  "breaks = UT_ASSERT (\<lambda>u. False) ''breaks''"

text \<open>
  The program under test is a counter that \<^verbatim>\<open>after_each\<close> increments. The first test
  passes; the second fails in its function; the third is failed by \<^verbatim>\<open>before_each\<close>.
\<close>

definition counter_suite :: "nat ut_test_suite_desc" where
  "counter_suite =
     UT_DECLARE_TEST_SUITE ''counter'' ''a counter''
       [UT_ASSERT (\<lambda>u. u = 0) ''fresh'']
       [UT_ASSERT (\<lambda>u. u = 3) ''three tests ran'']
       [UT_ASSERT (\<lambda>u. u < 2) ''fixture'']
       [Exec Suc]
       [UT_ADD_TEST ''first'' ''sees 0'' ''counter.c'' 10
          [UT_ASSERT (\<lambda>u. u = 0) ''is 0''],
        UT_ADD_TEST ''second'' ''sees 0 again'' ''counter.c'' 11
          [UT_ASSERT (\<lambda>u. u = 0) ''is 0'', holds],
        UT_ADD_TEST ''third'' ''anything'' ''counter.c'' 12 [holds]]"

text \<open>A suite whose \<^verbatim>\<open>startup\<close> fails.\<close>

definition broken_startup_suite :: "nat ut_test_suite_desc" where
  "broken_startup_suite =
     UT_DECLARE_TEST_SUITE ''broken'' ''startup fails'' [holds, breaks, holds] [holds] [] []
       [UT_ADD_TEST ''only'' ''never run'' ''broken.c'' 5 [holds]]"

text \<open>A suite whose only failed check is in \<^verbatim>\<open>teardown\<close>.\<close>

definition broken_teardown_suite :: "nat ut_test_suite_desc" where
  "broken_teardown_suite =
     UT_DECLARE_TEST_SUITE ''teardown'' ''teardown fails'' [] [breaks] [] []
       [UT_ADD_TEST ''only'' ''passes'' ''teardown.c'' 5 [holds]]"

text \<open>A suite without tests whose \<^verbatim>\<open>startup\<close> makes one check, which holds.\<close>

definition empty_suite :: "nat ut_test_suite_desc" where
  "empty_suite = UT_DECLARE_TEST_SUITE ''empty'' ''no tests'' [holds] [] [] [] []"

text \<open>
  Suites that make \<open>2^32\<close> checks on one descriptor: in \<^verbatim>\<open>startup\<close>, all of which
  hold; and in a test's function, of which the last fails.
\<close>

definition long_startup_suite :: "nat ut_test_suite_desc" where
  "long_startup_suite =
     UT_DECLARE_TEST_SUITE ''long startup'' ''2^32 checks in startup''
       (replicate (2 ^ 32) holds) [] [] [] []"


text \<open>
  A suite of \<open>2^32 - 1\<close> tests, all of which fail, and whose \<^verbatim>\<open>teardown\<close> fails too.
\<close>

definition all_failing_suite :: "nat ut_test_suite_desc" where
  "all_failing_suite =
     UT_DECLARE_TEST_SUITE ''failing'' ''2^32 - 1 tests, all failing'' [] [breaks] [] []
       (replicate (2 ^ 32 - 1) (UT_ADD_TEST ''fails'' ''fails'' ''failing.c'' 3 [breaks]))"

text \<open>
  The memory the runs of these two suites leave, as proved below.
\<close>

definition long_startup_left :: "nat machine" where
  "long_startup_left =
     \<lparr>suite = long_startup_suite
        \<lparr>started := True, performed_count := 0, successed_count := 0\<rparr>,
      prog = 0,
      trace = CallStartup # replicate (2 ^ 32) (OnSuccessfulAssert ''holds'')
              @ [CallTeardown]\<rparr>"





subsection \<open>The invariant of the counters\<close>



subsection \<open>Constant fields\<close>



section \<open>Lemmas\<close>

subsection \<open>User functions\<close>

lemma call_eq:
  "call body (d, u, out) =
     (d\<lparr>performed_count := performed_count d + of_nat (checks body u),
        successed_count := successed_count d + of_nat (passes body u)\<rparr>,
      effect body u, out @ reports body u)"
proof (induction body arbitrary: d u out)
  case Nil
  show ?case by (simp add: checks_def)
next
  case (Cons s body)
  show ?case
  proof (cases s)
    case (UT_ASSERT a msg)
    then show ?thesis
      by (simp add: Cons.IH checks_def Let_def UT_ON_SUCCESSFUL_ASSERT_def
          UT_ON_FAILED_ASSERT_def add.assoc add.commute)
  next
    case (Exec f)
    then show ?thesis using Cons.IH by (simp add: checks_def)
  qed
qed

lemma passes_le: "passes body u \<le> length body"
  by (induction body u rule: passes.induct) auto



lemma checks_Nil: "checks [] u = 0"
  by (simp add: checks_def)

lemma checks_0_passes: "checks body u = 0 \<Longrightarrow> passes body u = 0"
  by (simp add: checks_def)

lemma call_append:
  "call (pre @ post) (d, u, out) =
     (if fails pre u then call pre (d, u, out) else call post (call pre (d, u, out)))"
proof (induction pre arbitrary: d u out)
  case Nil
  show ?case by simp
next
  case (Cons s pre)
  show ?case by (cases s) (simp_all add: Cons.IH Let_def)
qed

lemma call_test_func_eq:
  "call_test_func f i m =
     \<lparr>suite = (suite m)\<lparr>test_descs := (test_descs (suite m))
         [i := (test_descs (suite m) ! i)
            \<lparr>performed_count := performed_count (test_descs (suite m) ! i) + of_nat (checks f (prog m)),
             successed_count := successed_count (test_descs (suite m) ! i) + of_nat (passes f (prog m))\<rparr>]\<rparr>,
      prog = effect f (prog m), trace = trace m @ reports f (prog m)\<rparr>"
  by (simp add: call_test_func_def call_eq)

lemma call_suite_func_eq:
  "call_suite_func f m =
     \<lparr>suite = (suite m)
         \<lparr>performed_count := performed_count (suite m) + of_nat (checks f (prog m)),
          successed_count := successed_count (suite m) + of_nat (passes f (prog m))\<rparr>,
      prog = effect f (prog m), trace = trace m @ reports f (prog m)\<rparr>"
  by (simp add: call_suite_func_def call_eq)

text \<open>
  Long runs of checks that hold.
\<close>

lemma replicate_holds:
  "passes (replicate n holds @ body) u = n + passes body u"
  "fails (replicate n holds @ body) u = fails body u"
  "effect (replicate n holds @ body) u = effect body u"
  "reports (replicate n holds @ body) u
     = replicate n (OnSuccessfulAssert ''holds'') @ reports body u"
  by (induction n; simp add: holds_def)+

lemma replicate_holds_Nil:
  "passes (replicate n holds) u = n"
  "fails (replicate n holds) u = False"
  "effect (replicate n holds) u = u"
  "reports (replicate n holds) u = replicate n (OnSuccessfulAssert ''holds'')"
  "checks (replicate n holds) u = n"
  using replicate_holds[of n "[]" u] by (simp_all add: checks_def)


subsection \<open>Unsigned arithmetic and counting\<close>

lemma unat_of_nat_uint: "n < 2 ^ 32 \<Longrightarrow> unat (of_nat n :: uint) = n"
  by (simp add: unat_of_nat)

lemma of_nat_eq_uint:
  "a < 2 ^ 32 \<Longrightarrow> b < 2 ^ 32 \<Longrightarrow> (of_nat a :: uint) = of_nat b \<longleftrightarrow> a = b"
  by (simp add: word_of_nat_eq_iff take_bit_nat_eq_self)


lemma length_filter_eq_iff: "length (filter P xs) = length xs \<longleftrightarrow> (\<forall>x\<in>set xs. P x)"
proof -
  have "length (filter P xs) + length (filter (\<lambda>x. \<not> P x) xs) = length xs"
    by (rule sum_length_filter_compl)
  then have "length (filter P xs) = length xs \<longleftrightarrow> filter (\<lambda>x. \<not> P x) xs = []"
    by auto
  then show ?thesis by (simp add: filter_empty_conv)
qed

subsection \<open>The steps of the loop body\<close>

lemma report_simps:
  "suite (report e m) = suite m"
  "prog (report e m) = prog m"
  "trace (report e m) = trace m @ [e]"
  by (simp_all add: report_def)

lemma call_test_func_simps:
  "prog (call_test_func f i m) = effect f (prog m)"
  "trace (call_test_func f i m) = trace m @ reports f (prog m)"
  "test_descs (suite (call_test_func f i m)) =
     (test_descs (suite m))
       [i := (test_descs (suite m) ! i)
          \<lparr>performed_count :=
             performed_count (test_descs (suite m) ! i) + of_nat (checks f (prog m)),
           successed_count :=
             successed_count (test_descs (suite m) ! i) + of_nat (passes f (prog m))\<rparr>]"
  "startup (suite (call_test_func f i m)) = startup (suite m)"
  "teardown (suite (call_test_func f i m)) = teardown (suite m)"
  "before_each (suite (call_test_func f i m)) = before_each (suite m)"
  "after_each (suite (call_test_func f i m)) = after_each (suite m)"
  "suite_name (suite (call_test_func f i m)) = suite_name (suite m)"
  "suite_description (suite (call_test_func f i m)) = suite_description (suite m)"
  "started (suite (call_test_func f i m)) = started (suite m)"
  "performed_count (suite (call_test_func f i m)) = performed_count (suite m)"
  "successed_count (suite (call_test_func f i m)) = successed_count (suite m)"
  by (simp_all add: call_test_func_eq)

lemma start_test_simps:
  "prog (start_test i m) = prog m"
  "trace (start_test i m) = trace m"
  "test_descs (suite (start_test i m)) =
     (test_descs (suite m))
       [i := (test_descs (suite m) ! i)
          \<lparr>started := True, performed_count := 0, successed_count := 0\<rparr>]"
  "startup (suite (start_test i m)) = startup (suite m)"
  "teardown (suite (start_test i m)) = teardown (suite m)"
  "before_each (suite (start_test i m)) = before_each (suite m)"
  "after_each (suite (start_test i m)) = after_each (suite m)"
  "suite_name (suite (start_test i m)) = suite_name (suite m)"
  "suite_description (suite (start_test i m)) = suite_description (suite m)"
  "started (suite (start_test i m)) = started (suite m)"
  "performed_count (suite (start_test i m)) = performed_count (suite m) + 1"
  "successed_count (suite (start_test i m)) = successed_count (suite m)"
  by (simp_all add: start_test_def Let_def)

lemma tally_test_simps:
  "prog (tally_test i m) = prog m"
  "trace (tally_test i m) =
     trace m @ [if UT_IS_TEST_SUCCESSED (test_descs (suite m) ! i)
                then OnSuccessfulTest i else OnFailedTest i]"
  "test_descs (suite (tally_test i m)) = test_descs (suite m)"
  "startup (suite (tally_test i m)) = startup (suite m)"
  "teardown (suite (tally_test i m)) = teardown (suite m)"
  "before_each (suite (tally_test i m)) = before_each (suite m)"
  "after_each (suite (tally_test i m)) = after_each (suite m)"
  "suite_name (suite (tally_test i m)) = suite_name (suite m)"
  "suite_description (suite (tally_test i m)) = suite_description (suite m)"
  "started (suite (tally_test i m)) = started (suite m)"
  "performed_count (suite (tally_test i m)) = performed_count (suite m)"
  "successed_count (suite (tally_test i m)) = successed_count (suite m) +
     (if UT_IS_TEST_SUCCESSED (test_descs (suite m) ! i) then 1 else 0)"
  by (simp_all add: tally_test_def UT_ON_SUCCESSFUL_TEST_def UT_ON_FAILED_TEST_def)

lemma run_before_each_simps:
  "prog (run_before_each i m) = effect (before_each (suite m)) (prog m)"
  "trace (run_before_each i m) =
     trace m @ CallBeforeEach i # reports (before_each (suite m)) (prog m)"
  "test_descs (suite (run_before_each i m)) =
     (test_descs (suite m))
       [i := (test_descs (suite m) ! i)
          \<lparr>performed_count := performed_count (test_descs (suite m) ! i)
             + of_nat (checks (before_each (suite m)) (prog m)),
           successed_count := successed_count (test_descs (suite m) ! i)
             + of_nat (passes (before_each (suite m)) (prog m))\<rparr>]"
  "startup (suite (run_before_each i m)) = startup (suite m)"
  "teardown (suite (run_before_each i m)) = teardown (suite m)"
  "before_each (suite (run_before_each i m)) = before_each (suite m)"
  "after_each (suite (run_before_each i m)) = after_each (suite m)"
  "suite_name (suite (run_before_each i m)) = suite_name (suite m)"
  "suite_description (suite (run_before_each i m)) = suite_description (suite m)"
  "started (suite (run_before_each i m)) = started (suite m)"
  "performed_count (suite (run_before_each i m)) = performed_count (suite m)"
  "successed_count (suite (run_before_each i m)) = successed_count (suite m)"
  by (simp_all add: run_before_each_def call_test_func_simps report_simps)

lemma run_after_each_simps:
  "prog (run_after_each i m) = effect (after_each (suite m)) (prog m)"
  "trace (run_after_each i m) =
     trace m @ CallAfterEach i # reports (after_each (suite m)) (prog m)"
  "test_descs (suite (run_after_each i m)) =
     (test_descs (suite m))
       [i := (test_descs (suite m) ! i)
          \<lparr>performed_count := performed_count (test_descs (suite m) ! i)
             + of_nat (checks (after_each (suite m)) (prog m)),
           successed_count := successed_count (test_descs (suite m) ! i)
             + of_nat (passes (after_each (suite m)) (prog m))\<rparr>]"
  "startup (suite (run_after_each i m)) = startup (suite m)"
  "teardown (suite (run_after_each i m)) = teardown (suite m)"
  "before_each (suite (run_after_each i m)) = before_each (suite m)"
  "after_each (suite (run_after_each i m)) = after_each (suite m)"
  "suite_name (suite (run_after_each i m)) = suite_name (suite m)"
  "suite_description (suite (run_after_each i m)) = suite_description (suite m)"
  "started (suite (run_after_each i m)) = started (suite m)"
  "performed_count (suite (run_after_each i m)) = performed_count (suite m)"
  "successed_count (suite (run_after_each i m)) = successed_count (suite m)"
  by (simp_all add: run_after_each_def call_test_func_simps report_simps)

lemma run_func_simps:
  "startup (suite (run_func i m)) = startup (suite m)"
  "teardown (suite (run_func i m)) = teardown (suite m)"
  "before_each (suite (run_func i m)) = before_each (suite m)"
  "after_each (suite (run_func i m)) = after_each (suite m)"
  "suite_name (suite (run_func i m)) = suite_name (suite m)"
  "suite_description (suite (run_func i m)) = suite_description (suite m)"
  "started (suite (run_func i m)) = started (suite m)"
  "performed_count (suite (run_func i m)) = performed_count (suite m)"
  "successed_count (suite (run_func i m)) = successed_count (suite m)"
  "length (test_descs (suite (run_func i m))) = length (test_descs (suite m))"
  "j \<noteq> i \<Longrightarrow> test_descs (suite (run_func i m)) ! j = test_descs (suite m) ! j"
  by (simp_all add: run_func_def call_test_func_simps report_simps)

lemma run_func_trace:
  "trace (run_func i m) =
     trace m @ (if UT_IS_TEST_SUCCESSED (test_descs (suite m) ! i)
                then CallFunc i # reports (func (test_descs (suite m) ! i)) (prog m)
                else [])"
  by (simp add: run_func_def call_test_func_simps report_simps)

lemmas phase_simps = start_test_simps run_before_each_simps run_func_simps
  run_after_each_simps tally_test_simps

lemma run_test_frame:
  "length (test_descs (suite (run_test i m))) = length (test_descs (suite m))"
  "startup (suite (run_test i m)) = startup (suite m)"
  "teardown (suite (run_test i m)) = teardown (suite m)"
  "before_each (suite (run_test i m)) = before_each (suite m)"
  "after_each (suite (run_test i m)) = after_each (suite m)"
  "suite_name (suite (run_test i m)) = suite_name (suite m)"
  "suite_description (suite (run_test i m)) = suite_description (suite m)"
  "started (suite (run_test i m)) = started (suite m)"
  "performed_count (suite (run_test i m)) = performed_count (suite m) + 1"
  by (simp_all add: run_test_def phase_simps)

lemma run_test_other:
  "j \<noteq> i \<Longrightarrow> test_descs (suite (run_test i m)) ! j = test_descs (suite m) ! j"
  by (simp add: run_test_def phase_simps)

lemma run_test_successed:
  "successed_count (suite (run_test i m)) = successed_count (suite m) +
     (if UT_IS_TEST_SUCCESSED (test_descs (suite (run_test i m)) ! i) then 1 else 0)"
  by (simp add: run_test_def phase_simps)



text \<open>When \<^verbatim>\<open>before_each\<close> has returned, the test is started.\<close>

lemma started_after_before_each:
  "i < length (test_descs (suite m)) \<Longrightarrow>
     started (test_descs (suite (run_before_each i (start_test i m))) ! i)"
  by (simp add: run_before_each_simps start_test_simps)

lemma successed_after_before_each:
  "i < length (test_descs (suite m)) \<Longrightarrow>
   UT_IS_TEST_SUCCESSED (test_descs (suite (run_before_each i (start_test i m))) ! i)
     \<longleftrightarrow> performed_count (test_descs (suite (run_before_each i (start_test i m))) ! i)
         = successed_count (test_descs (suite (run_before_each i (start_test i m))) ! i)"
  using started_after_before_each[of i m]
  by (simp add: UT_IS_TEST_SUCCESSED_def UT_IS_TEST_STARTED_def)

subsection \<open>The loop\<close>

text \<open>
  The loop returns exactly when the suite has fewer than \<open>2^32\<close> tests, and then it
  has run the loop body for the tests \<open>0, 1, ...\<close> in turn.
\<close>

lemma run_tests_eq:
  assumes "length (test_descs (suite m)) < 2 ^ 32"
    and "unat i \<le> length (test_descs (suite m))"
  shows "run_tests i m = Some (fold run_test [unat i..<length (test_descs (suite m))] m)"
  using assms
proof (induction "length (test_descs (suite m)) - unat i" arbitrary: i m)
  case 0
  then have "unat i = length (test_descs (suite m))" by simp
  then show ?case by (subst run_tests.simps) simp
next
  case (Suc k)
  let ?n = "length (test_descs (suite m))"
  from Suc.hyps(2) have lt: "unat i < ?n" by simp
  with Suc.prems(1) have "unat i + 1 < 2 ^ 32" by simp
  then have ui: "unat (i + 1) = unat i + 1"
    by (simp add: unat_word_ariths)
  have len: "length (test_descs (suite (run_test (unat i) m))) = ?n"
    by (simp add: run_test_frame)
  have "run_tests (i + 1) (run_test (unat i) m) =
      Some (fold run_test [unat (i + 1)..<?n] (run_test (unat i) m))"
    using Suc.hyps(1)[of "run_test (unat i) m" "i + 1"] Suc.hyps(2) Suc.prems lt
    by (simp add: len ui)
  moreover have "[unat i..<?n] = unat i # [unat (i + 1)..<?n]"
    using lt by (simp add: ui upt_conv_Cons)
  ultimately show ?case
    using lt by (subst run_tests.simps) simp
qed

lemma run_tests_Some_bound:
  assumes "run_tests i m = Some m'"
  shows "length (test_descs (suite m)) < 2 ^ 32"
proof (rule run_tests.raw_induct
    [where P = "\<lambda>i m m'. length (test_descs (suite m)) < 2 ^ 32", OF _ assms])
  fix f :: "uint \<Rightarrow> 'a machine \<Rightarrow> 'a machine option" and i m m'
  assume IH: "\<And>i m m'. f i m = Some m' \<Longrightarrow> length (test_descs (suite m)) < 2 ^ 32"
    and step: "(if unat i < length (test_descs (suite m))
          then f (i + 1) (run_test (unat i) m) else Some m) = Some m'"
  show "length (test_descs (suite m)) < 2 ^ 32"
  proof (cases "unat i < length (test_descs (suite m))")
    case True
    with step have "f (i + 1) (run_test (unat i) m) = Some m'" by simp
    from IH[OF this] show ?thesis by (simp add: run_test_frame)
  next
    case False
    moreover have "unat i < 2 ^ 32" using unsigned_less[of i, where ?'a = nat] by simp
    ultimately show ?thesis by simp
  qed
qed

subsection \<open>Points of a run\<close>

lemma start_suite_simps:
  "prog (start_suite m) = prog m"
  "trace (start_suite m) = trace m"
  "test_descs (suite (start_suite m)) = test_descs (suite m)"
  "startup (suite (start_suite m)) = startup (suite m)"
  "teardown (suite (start_suite m)) = teardown (suite m)"
  "before_each (suite (start_suite m)) = before_each (suite m)"
  "after_each (suite (start_suite m)) = after_each (suite m)"
  "suite_name (suite (start_suite m)) = suite_name (suite m)"
  "suite_description (suite (start_suite m)) = suite_description (suite m)"
  "started (suite (start_suite m)) = True"
  "performed_count (suite (start_suite m)) = 0"
  "successed_count (suite (start_suite m)) = 0"
  by (simp_all add: start_suite_def)

lemma call_suite_func_simps:
  "prog (call_suite_func f m) = effect f (prog m)"
  "trace (call_suite_func f m) = trace m @ reports f (prog m)"
  "test_descs (suite (call_suite_func f m)) = test_descs (suite m)"
  "startup (suite (call_suite_func f m)) = startup (suite m)"
  "teardown (suite (call_suite_func f m)) = teardown (suite m)"
  "before_each (suite (call_suite_func f m)) = before_each (suite m)"
  "after_each (suite (call_suite_func f m)) = after_each (suite m)"
  "suite_name (suite (call_suite_func f m)) = suite_name (suite m)"
  "suite_description (suite (call_suite_func f m)) = suite_description (suite m)"
  "started (suite (call_suite_func f m)) = started (suite m)"
  "performed_count (suite (call_suite_func f m)) =
     performed_count (suite m) + of_nat (checks f (prog m))"
  "successed_count (suite (call_suite_func f m)) =
     successed_count (suite m) + of_nat (passes f (prog m))"
  by (simp_all add: call_suite_func_eq)

lemma after_startup_simps:
  "prog (after_startup m) = effect (startup (suite m)) (prog m)"
  "trace (after_startup m) = trace m @ CallStartup # reports (startup (suite m)) (prog m)"
  "test_descs (suite (after_startup m)) = test_descs (suite m)"
  "startup (suite (after_startup m)) = startup (suite m)"
  "teardown (suite (after_startup m)) = teardown (suite m)"
  "before_each (suite (after_startup m)) = before_each (suite m)"
  "after_each (suite (after_startup m)) = after_each (suite m)"
  "suite_name (suite (after_startup m)) = suite_name (suite m)"
  "suite_description (suite (after_startup m)) = suite_description (suite m)"
  "started (suite (after_startup m)) = True"
  "performed_count (suite (after_startup m)) = of_nat (checks (startup (suite m)) (prog m))"
  "successed_count (suite (after_startup m)) = of_nat (passes (startup (suite m)) (prog m))"
  by (simp_all add: after_startup_def run_startup_def call_suite_func_simps report_simps
      start_suite_simps)

lemma run_teardown_simps:
  "prog (run_teardown m) = effect (teardown (suite m)) (prog m)"
  "trace (run_teardown m) = trace m @ CallTeardown # reports (teardown (suite m)) (prog m)"
  "test_descs (suite (run_teardown m)) = test_descs (suite m)"
  "startup (suite (run_teardown m)) = startup (suite m)"
  "teardown (suite (run_teardown m)) = teardown (suite m)"
  "before_each (suite (run_teardown m)) = before_each (suite m)"
  "after_each (suite (run_teardown m)) = after_each (suite m)"
  "suite_name (suite (run_teardown m)) = suite_name (suite m)"
  "suite_description (suite (run_teardown m)) = suite_description (suite m)"
  "started (suite (run_teardown m)) = started (suite m)"
  "performed_count (suite (run_teardown m)) =
     performed_count (suite m) + of_nat (checks (teardown (suite m)) (prog m))"
  "successed_count (suite (run_teardown m)) =
     successed_count (suite m) + of_nat (passes (teardown (suite m)) (prog m))"
  by (simp_all add: run_teardown_def call_suite_func_simps report_simps)

lemma fold_run_test_frame:
  "length (test_descs (suite (fold run_test is m))) = length (test_descs (suite m))"
  "startup (suite (fold run_test is m)) = startup (suite m)"
  "teardown (suite (fold run_test is m)) = teardown (suite m)"
  "before_each (suite (fold run_test is m)) = before_each (suite m)"
  "after_each (suite (fold run_test is m)) = after_each (suite m)"
  "suite_name (suite (fold run_test is m)) = suite_name (suite m)"
  "suite_description (suite (fold run_test is m)) = suite_description (suite m)"
  "started (suite (fold run_test is m)) = started (suite m)"
  "performed_count (suite (fold run_test is m)) = performed_count (suite m) + of_nat (length is)"
  by (induction "is" arbitrary: m; simp add: run_test_frame)+

lemma fold_run_test_other:
  "j \<notin> set is \<Longrightarrow> test_descs (suite (fold run_test is m)) ! j = test_descs (suite m) ! j"
  by (induction "is" arbitrary: m) (auto simp: run_test_other)

lemma before_test_Suc: "before_test (Suc i) m = run_test i (before_test i m)"
  by (simp add: before_test_def)

lemma before_test_0: "before_test 0 m = after_startup m"
  by (simp add: before_test_def)

lemma before_test_frame:
  "length (test_descs (suite (before_test i m))) = length (test_descs (suite m))"
  "startup (suite (before_test i m)) = startup (suite m)"
  "teardown (suite (before_test i m)) = teardown (suite m)"
  "before_each (suite (before_test i m)) = before_each (suite m)"
  "after_each (suite (before_test i m)) = after_each (suite m)"
  "suite_name (suite (before_test i m)) = suite_name (suite m)"
  "suite_description (suite (before_test i m)) = suite_description (suite m)"
  "started (suite (before_test i m)) = True"
  "performed_count (suite (before_test i m)) =
     of_nat (checks (startup (suite m)) (prog m)) + of_nat i"
  by (simp_all add: before_test_def fold_run_test_frame after_startup_simps)

text \<open>Test \<open>j\<close> is as declared until the loop reaches it, and as its run left it afterwards.\<close>

lemma before_test_later:
  "i \<le> j \<Longrightarrow> test_descs (suite (before_test i m)) ! j = test_descs (suite m) ! j"
  by (simp add: before_test_def fold_run_test_other after_startup_simps)

lemma before_test_earlier:
  "j < i \<Longrightarrow> test_descs (suite (before_test i m)) ! j
     = test_descs (suite (before_test (Suc j) m)) ! j"
proof (induction i)
  case 0
  then show ?case by simp
next
  case (Suc i)
  show ?case
  proof (cases "j = i")
    case True
    then show ?thesis by simp
  next
    case False
    with Suc.prems have "j < i" by simp
    with Suc.IH False show ?thesis by (simp add: before_test_Suc run_test_other)
  qed
qed

lemma before_test_successed:
  "i \<le> length (test_descs (suite m)) \<Longrightarrow>
   successed_count (suite (before_test i m)) =
     of_nat (passes (startup (suite m)) (prog m)) +
     of_nat (length (filter UT_IS_TEST_SUCCESSED (take i (test_descs (suite (before_test i m))))))"
proof (induction i)
  case 0
  show ?case by (simp add: before_test_0 after_startup_simps)
next
  case (Suc i)
  let ?b = "before_test i m" and ?a = "before_test (Suc i) m"
  have len: "i < length (test_descs (suite ?a))" "i < length (test_descs (suite ?b))"
    using Suc.prems by (simp_all add: before_test_frame)
  have "take i (test_descs (suite ?a)) = take i (test_descs (suite ?b))"
    using len by (intro nth_take_lemma) (simp_all add: before_test_Suc run_test_other)
  then have "take (Suc i) (test_descs (suite ?a)) =
      take i (test_descs (suite ?b)) @ [test_descs (suite ?a) ! i]"
    using len by (simp add: take_Suc_conv_app_nth)
  moreover have "successed_count (suite ?a) = successed_count (suite ?b) +
      (if UT_IS_TEST_SUCCESSED (test_descs (suite ?a) ! i) then 1 else 0)"
    by (simp add: before_test_Suc run_test_successed)
  ultimately show ?case using Suc by simp
qed

lemma run_eq:
  assumes "length (test_descs (suite m)) < 2 ^ 32"
  shows "ut_run_test_suite m =
     (if \<not> UT_IS_TEST_SUITE_SUCCESSED (suite (after_startup m))
      then Some (False, after_startup m)
      else Some (UT_IS_TEST_SUITE_SUCCESSED (suite (run_teardown (after_tests m))),
                 run_teardown (after_tests m)))"
proof -
  have "run_tests 0 (after_startup m) = Some (after_tests m)"
    using assms run_tests_eq[of "after_startup m" 0]
    by (simp add: after_startup_simps after_tests_def before_test_def)
  then show ?thesis
    by (simp add: ut_run_test_suite_def Let_def after_startup_def)
qed

lemma run_startup_failed:
  "\<not> UT_IS_TEST_SUITE_SUCCESSED (suite (after_startup m)) \<Longrightarrow>
     ut_run_test_suite m = Some (False, after_startup m)"
  by (simp add: ut_run_test_suite_def Let_def after_startup_def)

lemma startup_ok_iff:
  "UT_IS_TEST_SUITE_SUCCESSED (suite (after_startup m)) \<longleftrightarrow>
     \<not> fails (startup (suite m)) (prog m)"
  by (simp add: UT_IS_TEST_SUITE_SUCCESSED_def UT_IS_TEST_SUITE_STARTED_def
      after_startup_simps checks_def)

lemma run_returns:
  assumes "length (test_descs (suite m)) < 2 ^ 32"
    and "UT_IS_TEST_SUITE_SUCCESSED (suite (after_startup m))"
  shows "ut_run_test_suite m =
     Some (UT_IS_TEST_SUITE_SUCCESSED (suite (run_teardown (after_tests m))),
           run_teardown (after_tests m))"
  using assms by (simp add: run_eq)

text \<open>
  With \<open>2^32\<close> tests or more the index wraps around to 0 before it reaches the end of
  the array: once \<^verbatim>\<open>startup\<close> has passed, the run never returns.
\<close>

lemma run_diverges:
  assumes "2 ^ 32 \<le> length (test_descs (suite m))"
    and "UT_IS_TEST_SUITE_SUCCESSED (suite (after_startup m))"
  shows "ut_run_test_suite m = None"
proof -
  have "run_tests 0 (after_startup m) = None"
  proof (cases "run_tests 0 (after_startup m)")
    case None
    then show ?thesis .
  next
    case (Some m')
    then have "length (test_descs (suite (after_startup m))) < 2 ^ 32"
      by (rule run_tests_Some_bound)
    with assms(1) show ?thesis by (simp add: after_startup_simps)
  qed
  with assms(2) show ?thesis
    by (simp add: ut_run_test_suite_def Let_def after_startup_def)
qed

subsection \<open>What a run reports\<close>

lemma reports_asserts:
  "e \<in> set (reports body u) \<Longrightarrow>
     (\<exists>msg. e = OnSuccessfulAssert msg) \<or> (\<exists>msg. e = OnFailedAssert msg)"
  by (induction body u rule: reports.induct) (auto split: if_splits)

lemma reports_no_calls:
  "CallStartup \<notin> set (reports body u)"
  "CallTeardown \<notin> set (reports body u)"
  "CallBeforeEach i \<notin> set (reports body u)"
  "CallFunc i \<notin> set (reports body u)"
  "CallAfterEach i \<notin> set (reports body u)"
  "OnSuccessfulTest i \<notin> set (reports body u)"
  "OnFailedTest i \<notin> set (reports body u)"
  using reports_asserts[of _ body u] by blast+

lemma count_reports:
  "count_list (reports body u) CallStartup = 0"
  "count_list (reports body u) CallTeardown = 0"
  "count_list (reports body u) (CallBeforeEach i) = 0"
  "count_list (reports body u) (CallFunc i) = 0"
  "count_list (reports body u) (CallAfterEach i) = 0"
  "count_list (reports body u) (OnSuccessfulTest i) = 0"
  "count_list (reports body u) (OnFailedTest i) = 0"
  by (simp_all add: reports_no_calls)

lemma attempted_append: "attempted (xs @ ys) = attempted xs @ attempted ys"
  by (induction xs rule: attempted.induct) simp_all

lemma attempted_reports: "attempted (reports body u) = []"
  by (induction body u rule: reports.induct) simp_all

lemma run_test_trace:
  "trace (run_test i m) =
     trace m @ CallBeforeEach i # reports (before_each (suite m)) (prog m)
     @ (if UT_IS_TEST_SUCCESSED (test_descs (suite (run_before_each i (start_test i m))) ! i)
        then CallFunc i # reports (func (test_descs (suite (run_before_each i (start_test i m))) ! i))
                             (prog (run_before_each i (start_test i m)))
        else [])
     @ CallAfterEach i # reports (after_each (suite m))
                            (prog (run_func i (run_before_each i (start_test i m))))
     @ [if UT_IS_TEST_SUCCESSED (test_descs (suite (run_test i m)) ! i)
        then OnSuccessfulTest i else OnFailedTest i]"
  by (simp add: run_test_def tally_test_simps run_after_each_simps run_func_simps
      run_func_trace run_before_each_simps(1,2,4-) start_test_simps(1,2,4-))

lemma run_test_count_after_each:
  "count_list (trace (run_test j m)) (CallAfterEach i) =
     count_list (trace m) (CallAfterEach i) + (if i = j then 1 else 0)"
  by (simp add: run_test_trace count_reports)

lemma run_test_count_func:
  "count_list (trace (run_test j m)) (CallFunc i) =
     count_list (trace m) (CallFunc i) +
     (if i = j \<and> UT_IS_TEST_SUCCESSED (test_descs (suite (run_before_each j (start_test j m))) ! j)
      then 1 else 0)"
  by (simp add: run_test_trace count_reports)

lemma run_test_attempted:
  "attempted (trace (run_test i m)) = attempted (trace m) @ [i]"
  by (simp add: run_test_trace attempted_append attempted_reports)

lemma before_test_attempted:
  "attempted (trace (before_test i m)) = attempted (trace m) @ [0..<i]"
  by (induction i)
    (simp_all add: before_test_0 before_test_Suc run_test_attempted after_startup_simps
      attempted_append attempted_reports)

lemma before_test_count_after_each:
  "count_list (trace (before_test k m)) (CallAfterEach i) =
     count_list (trace m) (CallAfterEach i) + (if i < k then 1 else 0)"
  by (induction k)
    (simp_all add: before_test_0 before_test_Suc run_test_count_after_each after_startup_simps
      count_reports)

lemma before_test_count_func:
  "count_list (trace (before_test k m)) (CallFunc i) =
     count_list (trace m) (CallFunc i) +
     (if i < k \<and> UT_IS_TEST_SUCCESSED
          (test_descs (suite (run_before_each i (start_test i (before_test i m)))) ! i)
      then 1 else 0)"
  by (induction k)
    (auto simp add: before_test_0 before_test_Suc run_test_count_func after_startup_simps
      count_reports less_Suc_eq)

lemma after_tests_count_after_each:
  "count_list (trace (run_teardown (after_tests m))) (CallAfterEach i) =
     count_list (trace m) (CallAfterEach i)
     + (if i < length (test_descs (suite m)) then 1 else 0)"
  by (simp add: run_teardown_simps after_tests_def before_test_count_after_each count_reports)

lemma after_tests_count_func:
  "count_list (trace (run_teardown (after_tests m))) (CallFunc i) =
     count_list (trace m) (CallFunc i)
     + (if i < length (test_descs (suite m)) \<and> UT_IS_TEST_SUCCESSED
          (test_descs (suite (run_before_each i (start_test i (before_test i m)))) ! i)
        then 1 else 0)"
  by (simp add: run_teardown_simps after_tests_def before_test_count_func count_reports)

subsection \<open>The counters at the end of a run\<close>

lemma final_simps:
  "performed_count (suite (run_teardown (after_tests m))) =
     of_nat (checks (startup (suite m)) (prog m)) + of_nat (length (test_descs (suite m)))
     + of_nat (checks (teardown (suite m)) (prog (after_tests m)))"
  "successed_count (suite (run_teardown (after_tests m))) =
     of_nat (passes (startup (suite m)) (prog m))
     + of_nat (length (filter UT_IS_TEST_SUCCESSED (test_descs (suite (after_tests m)))))
     + of_nat (passes (teardown (suite m)) (prog (after_tests m)))"
  "started (suite (run_teardown (after_tests m)))"
  "test_descs (suite (run_teardown (after_tests m))) = test_descs (suite (after_tests m))"
  "attempted (trace (run_teardown (after_tests m))) =
     attempted (trace m) @ [0..<length (test_descs (suite m))]"
  using before_test_successed[of "length (test_descs (suite m))" m]
  by (simp_all add: run_teardown_simps after_tests_def before_test_frame
      before_test_attempted attempted_append attempted_reports)

lemma final_equal_iff:
  assumes "length (test_descs (suite m)) < 2 ^ 32 - 1"
    and "\<not> fails (startup (suite m)) (prog m)"
  shows "performed_count (suite (run_teardown (after_tests m)))
           = successed_count (suite (run_teardown (after_tests m)))
     \<longleftrightarrow> (\<forall>t\<in>set (test_descs (suite (after_tests m))). UT_IS_TEST_SUCCESSED t)
         \<and> \<not> fails (teardown (suite m)) (prog (after_tests m))"
proof -
  let ?N = "length (test_descs (suite m))"
  let ?ts = "test_descs (suite (after_tests m))"
  let ?S = "length (filter UT_IS_TEST_SUCCESSED ?ts)"
  let ?f = "if fails (teardown (suite m)) (prog (after_tests m)) then 1 else 0 :: nat"
  have lts: "length ?ts = ?N"
    by (simp add: after_tests_def before_test_frame)
  then have SN: "?S \<le> ?N"
    using length_filter_le[of UT_IS_TEST_SUCCESSED ?ts] by simp
  have "performed_count (suite (run_teardown (after_tests m)))
           = successed_count (suite (run_teardown (after_tests m)))
      \<longleftrightarrow> (of_nat (?N + ?f) :: uint) = of_nat ?S"
    using assms(2) by (simp add: final_simps checks_def)
  also have "\<dots> \<longleftrightarrow> ?N + ?f = ?S"
    using assms(1) SN by (intro of_nat_eq_uint) simp_all
  also have "\<dots> \<longleftrightarrow> ?S = length ?ts \<and> ?f = 0"
    using SN lts by auto
  also have "\<dots> \<longleftrightarrow> (\<forall>t\<in>set ?ts. UT_IS_TEST_SUCCESSED t)
         \<and> \<not> fails (teardown (suite m)) (prog (after_tests m))"
    by (simp add: length_filter_eq_iff)
  finally show ?thesis .
qed




subsection \<open>Runs from descriptors with the same declaration\<close>









subsection \<open>The example suites\<close>

lemmas example_defs = loaded_def UT_DECLARE_TEST_SUITE_def UT_ADD_TEST_def holds_def breaks_def

lemmas run_defs = ut_run_test_suite_def run_startup_def run_teardown_def start_suite_def
  run_test_def start_test_def run_before_each_def run_func_def run_after_each_def
  tally_test_def report_def call_suite_func_def call_test_func_def
  UT_IS_TEST_SUITE_SUCCESSED_def UT_IS_TEST_SUITE_STARTED_def UT_IS_TEST_SUCCESSED_def
  UT_IS_TEST_STARTED_def UT_ON_SUCCESSFUL_ASSERT_def UT_ON_FAILED_ASSERT_def
  UT_ON_SUCCESSFUL_TEST_def UT_ON_FAILED_TEST_def

lemmas closed_run_defs = ut_run_test_suite_def run_startup_def run_teardown_def start_suite_def
  run_test_def start_test_def run_before_each_def run_func_def run_after_each_def
  tally_test_def report_def call_suite_func_eq call_test_func_eq
  UT_IS_TEST_SUITE_SUCCESSED_def UT_IS_TEST_SUITE_STARTED_def UT_IS_TEST_SUCCESSED_def
  UT_IS_TEST_STARTED_def UT_ON_SUCCESSFUL_TEST_def UT_ON_FAILED_TEST_def checks_Nil

lemma counter_suite_hyps:
  "length (test_descs (suite (loaded counter_suite 0))) = 3"
  "UT_IS_TEST_SUITE_SUCCESSED (suite (after_startup (loaded counter_suite 0)))"
  "trace (loaded counter_suite 0) = []"
  by (simp_all add: startup_ok_iff counter_suite_def example_defs)

lemma counter_suite_before_each:
  "performed_count (test_descs (suite (run_before_each 0 (start_test 0
       (before_test 0 (loaded counter_suite 0))))) ! 0) = 1"
  "successed_count (test_descs (suite (run_before_each 0 (start_test 0
       (before_test 0 (loaded counter_suite 0))))) ! 0) = 1"
  "performed_count (test_descs (suite (run_before_each 1 (start_test 1
       (before_test 1 (loaded counter_suite 0))))) ! 1) = 1"
  "successed_count (test_descs (suite (run_before_each 1 (start_test 1
       (before_test 1 (loaded counter_suite 0))))) ! 1) = 1"
  "performed_count (test_descs (suite (run_before_each 2 (start_test 2
       (before_test 2 (loaded counter_suite 0))))) ! 2) = 1"
  "successed_count (test_descs (suite (run_before_each 2 (start_test 2
       (before_test 2 (loaded counter_suite 0))))) ! 2) = 0"
  by code_simp+

lemma counter_suite_teardown_checks:
  "checks (startup (suite (loaded counter_suite 0))) (prog (loaded counter_suite 0)) = 1"
  "checks (teardown (suite (loaded counter_suite 0)))
     (prog (after_tests (loaded counter_suite 0))) = 1"
  "fails (teardown (suite (loaded counter_suite 0)))
     (prog (after_tests (loaded counter_suite 0))) = False"
  by code_simp+


lemma empty_suite_run:
  "ut_run_test_suite (loaded empty_suite 0) =
     Some (True,
       \<lparr>suite = empty_suite\<lparr>started := True, performed_count := 1, successed_count := 1\<rparr>,
        prog = 0, trace = [CallStartup, OnSuccessfulAssert ''holds'', CallTeardown]\<rparr>)"
  by (simp add: ut_run_test_suite_def run_tests.simps run_startup_def run_teardown_def
      start_suite_def report_def call_suite_func_def UT_IS_TEST_SUITE_SUCCESSED_def
      UT_IS_TEST_SUITE_STARTED_def UT_ON_SUCCESSFUL_ASSERT_def empty_suite_def example_defs)

lemma long_startup_run:
  "ut_run_test_suite (loaded long_startup_suite 0) = Some (True, long_startup_left)"
  by (simp add: closed_run_defs run_tests.simps[of 0] replicate_holds_Nil
      long_startup_left_def long_startup_suite_def loaded_def UT_DECLARE_TEST_SUITE_def)


lemma failing_test:
  assumes "i < length (test_descs (suite m))"
    and "before_each (suite m) = []" "after_each (suite m) = []"
    and "func (test_descs (suite m) ! i) = [breaks]"
  shows "\<not> UT_IS_TEST_SUCCESSED (test_descs (suite (run_test i m)) ! i)"
  using assms
  by (simp add: run_test_def tally_test_simps run_after_each_simps run_func_def
      call_test_func_simps report_simps run_before_each_simps start_test_simps
      UT_IS_TEST_SUCCESSED_def UT_IS_TEST_STARTED_def checks_def breaks_def)

text \<open>
  With \<open>2^32 - 1\<close> tests, all of which fail, and a failed check in \<^verbatim>\<open>teardown\<close>, the
  suite's \<open>performed_count\<close> is \<open>2^32\<close> ahead of its \<open>successed_count\<close>, that is,
  equal to it, and the verdict is success: the verdict tells whether a test has failed
  only for suites with fewer tests.
\<close>

lemma verdict_wraps_around:
  "\<exists>m'. ut_run_test_suite (loaded all_failing_suite 0) = Some (True, m')
     \<and> length (test_descs (suite m')) = 4294967295
     \<and> (\<forall>t\<in>set (test_descs (suite m')). UT_IS_TEST_FAILED t)"
proof -
  let ?m = "loaded all_failing_suite 0"
  let ?m' = "run_teardown (after_tests ?m)"
  let ?N = "length (test_descs (suite ?m))"
  have m: "startup (suite ?m) = []" "teardown (suite ?m) = [breaks]"
    "before_each (suite ?m) = []" "after_each (suite ?m) = []" "?N = 4294967295"
    by (simp_all add: all_failing_suite_def loaded_def UT_DECLARE_TEST_SUITE_def)
  have f: "func (test_descs (suite ?m) ! j) = [breaks]" if "j < ?N" for j
    using that by (simp add: all_failing_suite_def loaded_def UT_DECLARE_TEST_SUITE_def
        UT_ADD_TEST_def)
  have ok: "UT_IS_TEST_SUITE_SUCCESSED (suite (after_startup ?m))"
    by (simp add: startup_ok_iff m)
  have N: "?N < 2 ^ 32" by (simp add: m)
  have run: "ut_run_test_suite ?m = Some (UT_IS_TEST_SUITE_SUCCESSED (suite ?m'), ?m')"
    using N ok by (rule run_returns)
  have failed: "\<not> UT_IS_TEST_SUCCESSED t" if "t \<in> set (test_descs (suite (after_tests ?m)))" for t
  proof -
    from that obtain j where j: "j < ?N" and t: "t = test_descs (suite (before_test ?N ?m)) ! j"
      by (auto simp add: in_set_conv_nth after_tests_def before_test_frame)
    let ?b = "before_test j ?m"
    have "t = test_descs (suite (run_test j ?b)) ! j"
      using j t by (simp add: before_test_earlier before_test_Suc)
    moreover have "j < length (test_descs (suite ?b))"
      "before_each (suite ?b) = []" "after_each (suite ?b) = []"
      "func (test_descs (suite ?b) ! j) = [breaks]"
      using j f[OF j] by (simp_all add: before_test_frame before_test_later m)
    ultimately show ?thesis using failing_test[of j ?b] by simp
  qed
  then have none: "filter UT_IS_TEST_SUCCESSED (test_descs (suite (after_tests ?m))) = []"
    by (simp add: filter_empty_conv)
  have "performed_count (suite ?m') = 0" "successed_count (suite ?m') = 0"
    by (simp_all add: final_simps none m checks_def breaks_def)
  then have "UT_IS_TEST_SUITE_SUCCESSED (suite ?m')"
    by (simp add: UT_IS_TEST_SUITE_SUCCESSED_def UT_IS_TEST_SUITE_STARTED_def final_simps(3))
  moreover have "length (test_descs (suite ?m')) = 4294967295"
    using m(5) by (simp add: run_teardown_simps(3) after_tests_def before_test_frame)
  moreover have "\<forall>t\<in>set (test_descs (suite ?m')). UT_IS_TEST_FAILED t"
    using failed by (simp add: final_simps(4) UT_IS_TEST_FAILED_def)
  ultimately show ?thesis using run by simp
qed

subsection \<open>The pass for a test\<close>

lemma run_test_at: "run_test i m = tally_test i (run_after_each i (at_after_each i m))"
  by (simp add: run_test_def at_after_each_def at_func_def)

lemma at_frame:
  "length (test_descs (suite (at_func i m))) = length (test_descs (suite m))"
  "length (test_descs (suite (at_after_each i m))) = length (test_descs (suite m))"
  "before_each (suite (at_func i m)) = before_each (suite m)"
  "after_each (suite (at_func i m)) = after_each (suite m)"
  "after_each (suite (at_after_each i m)) = after_each (suite m)"
  by (simp_all add: at_func_def at_after_each_def phase_simps)

lemma at_func_this:
  "i < length (test_descs (suite m)) \<Longrightarrow>
     started (test_descs (suite (at_func i m)) ! i)
     \<and> func (test_descs (suite (at_func i m)) ! i) = func (test_descs (suite m) ! i)"
  by (simp add: at_func_def run_before_each_simps start_test_simps)

text \<open>The pass for a test, from the call of \<^verbatim>\<open>after_each\<close> on.\<close>

lemma run_test_after_each:
  assumes "i < length (test_descs (suite m))"
    and "call (after_each (suite m))
              (test_descs (suite (at_after_each i m)) ! i, prog (at_after_each i m),
               trace (at_after_each i m) @ [CallAfterEach i]) = (t, u, out)"
  shows "test_descs (suite (run_test i m)) ! i = t"
    and "prog (run_test i m) = u"
    and "trace (run_test i m) =
           out @ [if UT_IS_TEST_SUCCESSED t then OnSuccessfulTest i else OnFailedTest i]"
  using assms
  by (simp_all add: run_test_at tally_test_simps run_after_each_simps call_eq at_frame)

text \<open>The pass for a test, at the call of its function.\<close>

lemma run_func_skips:
  assumes "i < length (test_descs (suite m))"
    and "performed_count (test_descs (suite (at_func i m)) ! i)
      \<noteq> successed_count (test_descs (suite (at_func i m)) ! i)"
  shows "run_func i (at_func i m) = at_func i m"
  using assms by (simp add: run_func_def UT_IS_TEST_SUCCESSED_def)

lemma run_func_calls:
  assumes "i < length (test_descs (suite m))"
    and "performed_count (test_descs (suite (at_func i m)) ! i)
      = successed_count (test_descs (suite (at_func i m)) ! i)"
    and "call (func (test_descs (suite m) ! i))
              (test_descs (suite (at_func i m)) ! i, prog (at_func i m),
               trace (at_func i m) @ [CallFunc i]) = (t, u, out)"
  shows "run_func i (at_func i m) =
           \<lparr>suite = (suite (at_func i m))
               \<lparr>test_descs := (test_descs (suite (at_func i m)))[i := t]\<rparr>,
            prog = u, trace = out\<rparr>"
  using assms at_func_this[of i m]
  by (simp add: run_func_def UT_IS_TEST_SUCCESSED_def
      UT_IS_TEST_STARTED_def call_test_func_def report_def)

lemma before_test_trace_mono:
  "i \<le> k \<Longrightarrow> \<exists>es. trace (before_test k m) = trace (before_test i m) @ es"
proof (induction k)
  case 0
  then show ?case by simp
next
  case (Suc k)
  show ?case
  proof (cases "i = Suc k")
    case True
    then show ?thesis by simp
  next
    case False
    with Suc.prems have "i \<le> k" by simp
    with Suc.IH obtain es where "trace (before_test k m) = trace (before_test i m) @ es"
      by blast
    then show ?thesis
      by (simp add: before_test_Suc run_test_trace[of k "before_test k m"])
  qed
qed

lemma final_trace_after_pass:
  assumes "i < length (test_descs (suite m))"
  shows "\<exists>rest. trace (run_teardown (after_tests m)) = trace (before_test (Suc i) m) @ rest"
proof -
  from assms have "Suc i \<le> length (test_descs (suite m))" by simp
  from before_test_trace_mono[OF this, of m] obtain es where
    "trace (after_tests m) = trace (before_test (Suc i) m) @ es"
    by (auto simp add: after_tests_def)
  then show ?thesis by (simp add: run_teardown_simps)
qed

lemma final_test:
  "i < length (test_descs (suite m)) \<Longrightarrow>
     test_descs (suite (run_teardown (after_tests m))) ! i
       = test_descs (suite (before_test (Suc i) m)) ! i"
  using before_test_earlier[of i "length (test_descs (suite m))" m]
  by (simp add: run_teardown_simps after_tests_def)

lemma before_test_this:
  "func (test_descs (suite (before_test i m)) ! i) = func (test_descs (suite m) ! i)"
  by (simp add: before_test_later)

lemma run_test_trace_at:
  "trace (run_test i m) =
     trace (at_after_each i m) @ CallAfterEach i
       # reports (after_each (suite m)) (prog (at_after_each i m))
     @ [if UT_IS_TEST_SUCCESSED (test_descs (suite (run_test i m)) ! i)
        then OnSuccessfulTest i else OnFailedTest i]"
  by (simp add: run_test_at tally_test_simps run_after_each_simps at_frame)

lemma final_trace_after_func:
  assumes "i < length (test_descs (suite m))"
  shows "\<exists>rest. trace (run_teardown (after_tests m))
      = trace (at_after_each i (before_test i m)) @ CallAfterEach i # rest"
proof -
  from final_trace_after_pass[OF assms] obtain rest where
    "trace (run_teardown (after_tests m)) = trace (run_test i (before_test i m)) @ rest"
    by (auto simp add: before_test_Suc)
  then show ?thesis
    by (simp add: run_test_trace_at[of i "before_test i m"])
qed

subsection \<open>Every point of a run\<close>


lemma call_points_hd: "hd (call_points body (d, u, out)) = (d, u, out)"
  by (induction body "(d, u, out)" rule: call_points.induct) (simp_all add: Let_def)



























subsection \<open>More on the example suites\<close>

lemma counter_suite_after_each_0:
  "snd (call (after_each (suite (loaded counter_suite 0)))
         (test_descs (suite (at_after_each 0 (before_test 0 (loaded counter_suite 0)))) ! 0,
          prog (at_after_each 0 (before_test 0 (loaded counter_suite 0))),
          trace (at_after_each 0 (before_test 0 (loaded counter_suite 0))) @ [CallAfterEach 0]))
   = (1, [CallStartup, OnSuccessfulAssert ''fresh'', CallBeforeEach 0,
          OnSuccessfulAssert ''fixture'', CallFunc 0, OnSuccessfulAssert ''is 0'',
          CallAfterEach 0])"
  by code_simp

lemma counter_suite_func_0:
  "snd (call (func (test_descs (suite (loaded counter_suite 0)) ! 0))
         (test_descs (suite (at_func 0 (before_test 0 (loaded counter_suite 0)))) ! 0,
          prog (at_func 0 (before_test 0 (loaded counter_suite 0))),
          trace (at_func 0 (before_test 0 (loaded counter_suite 0))) @ [CallFunc 0]))
   = (0, [CallStartup, OnSuccessfulAssert ''fresh'', CallBeforeEach 0,
          OnSuccessfulAssert ''fixture'', CallFunc 0, OnSuccessfulAssert ''is 0''])"
  by code_simp





section \<open>The claims\<close>

subsection \<open>C1: the outcome of a check\<close>

text \<open>
  C1. In any invocation of a user function, when control reaches a \<^verbatim>\<open>UT_ASSERT\<close> (no
  check before it has failed; the function has brought the descriptor, the program state
  and the trace to \<open>d1\<close>, \<open>u1\<close>, \<open>out1\<close>): if its condition holds, both
  \<open>performed_count\<close> and \<open>successed_count\<close> go up by one and the function goes on with
  the statements after it; if it does not hold, only \<open>performed_count\<close> goes up, the
  failed-assertion observer gets the message, and the function ends there, whatever
  follows. Once a check has failed, nothing written after it has any effect.
\<close>

theorem UT_ASSERT_outcome:
  "(\<not> fails pre u \<and> call pre (d, u, out) = (d1, u1, out1) \<longrightarrow>
      call (pre @ UT_ASSERT assertion message # post) (d, u, out) =
        (if assertion u1
         then call post (d1\<lparr>performed_count := performed_count d1 + 1,
                              successed_count := successed_count d1 + 1\<rparr>,
                         u1, out1 @ [OnSuccessfulAssert message])
         else (d1\<lparr>performed_count := performed_count d1 + 1\<rparr>, u1,
               out1 @ [OnFailedAssert message])))
   \<and> (fails pre u \<longrightarrow> call (pre @ post) (d, u, out) = call pre (d, u, out))"
  by (simp add: call_append Let_def UT_ON_SUCCESSFUL_ASSERT_def UT_ON_FAILED_ASSERT_def)

theorem UT_ASSERT_outcome_witness:
  "call [UT_ASSERT (\<lambda>u. u) ''first'', UT_ASSERT (\<lambda>u. \<not> u) ''second'',
         UT_ASSERT (\<lambda>u. u) ''third'']
     (\<lparr>started = True, performed_count = 0, successed_count = 0\<rparr>, True, []) =
   (\<lparr>started = True, performed_count = 2, successed_count = 1\<rparr>, True,
    [OnSuccessfulAssert ''first'', OnFailedAssert ''second''])
   \<and> fails [UT_ASSERT (\<lambda>u. u) ''first'', UT_ASSERT (\<lambda>u. \<not> u) ''second''] True
   \<and> call ([UT_ASSERT (\<lambda>u. u) ''first'', UT_ASSERT (\<lambda>u. \<not> u) ''second'']
           @ [UT_ASSERT (\<lambda>u. u) ''third''])
        (\<lparr>started = True, performed_count = 0, successed_count = 0\<rparr>, True, []) =
      call [UT_ASSERT (\<lambda>u. u) ''first'', UT_ASSERT (\<lambda>u. \<not> u) ''second'']
        (\<lparr>started = True, performed_count = 0, successed_count = 0\<rparr>, True, [])"
  using UT_ASSERT_outcome [of "[UT_ASSERT (\<lambda>u. u) ''first'']" True
      "\<lparr>started = True, performed_count = 0, successed_count = 0\<rparr>" "[]"
      "\<lparr>started = True, performed_count = 1, successed_count = 1\<rparr>" True
      "[OnSuccessfulAssert ''first'']" "\<lambda>u. \<not> u" "''second''"
      "[UT_ASSERT (\<lambda>u. u) ''third'']"]
    UT_ASSERT_outcome [of "[UT_ASSERT (\<lambda>u. u) ''first'', UT_ASSERT (\<lambda>u. \<not> u) ''second'']" True
      "\<lparr>started = True, performed_count = 0, successed_count = 0\<rparr>" "[]" _ _ _ _ _
      "[UT_ASSERT (\<lambda>u. u) ''third'']"]
  by (simp add: UT_ON_SUCCESSFUL_ASSERT_def UT_ON_FAILED_ASSERT_def)

subsection \<open>C2: the verdict\<close>

text \<open>
  C2, as stated, fails: the verdict also depends on \<^verbatim>\<open>teardown\<close>. In this suite
  \<^verbatim>\<open>startup\<close> does not fail and the only test ends successful, but the check that
  \<^verbatim>\<open>teardown\<close> makes fails, and the runner returns false.
\<close>

theorem teardown_failure_fails_suite:
  "UT_IS_TEST_SUITE_SUCCESSED (suite (after_startup (loaded broken_teardown_suite 0)))
   \<and> ut_run_test_suite (loaded broken_teardown_suite 0) =
       Some (False,
         \<lparr>suite = broken_teardown_suite
            \<lparr>started := True, performed_count := 2, successed_count := 1,
             test_descs := [(UT_ADD_TEST ''only'' ''passes'' ''teardown.c'' 5 [holds])
               \<lparr>started := True, performed_count := 1, successed_count := 1\<rparr>]\<rparr>,
          prog = 0,
          trace = [CallStartup, CallBeforeEach 0, CallFunc 0, OnSuccessfulAssert ''holds'',
                   CallAfterEach 0, OnSuccessfulTest 0, CallTeardown,
                   OnFailedAssert ''breaks'']\<rparr>)
   \<and> UT_IS_TEST_SUCCESSED ((UT_ADD_TEST ''only'' ''passes'' ''teardown.c'' 5 [holds])
         \<lparr>started := True, performed_count := 1, successed_count := 1\<rparr>)"
  by (simp add: after_startup_def run_tests.simps[of 0] run_tests.simps[of 1] run_defs
      broken_teardown_suite_def example_defs)

text \<open>
  C2, amended. For a suite with fewer than \<open>2^32 - 1\<close> tests, the runner returns a
  verdict, which is true if and only if the suite's \<open>performed_count\<close> equals its
  \<open>successed_count\<close> at the end of the run, and if and only if \<^verbatim>\<open>startup\<close> did not
  fail, every test ended successful and \<^verbatim>\<open>teardown\<close> did not fail.
\<close>

theorem verdict_iff:
  assumes "length (test_descs (suite m)) < 2 ^ 32 - 1"
  shows "\<exists>verdict m'. ut_run_test_suite m = Some (verdict, m')
    \<and> (verdict \<longleftrightarrow> performed_count (suite m') = successed_count (suite m'))
    \<and> (verdict \<longleftrightarrow>
          UT_IS_TEST_SUITE_SUCCESSED (suite (after_startup m))
          \<and> (\<forall>t\<in>set (test_descs (suite m')). UT_IS_TEST_SUCCESSED t)
          \<and> \<not> fails (teardown (suite m)) (prog (after_tests m)))"
proof (cases "UT_IS_TEST_SUITE_SUCCESSED (suite (after_startup m))")
  case False
  then have "ut_run_test_suite m = Some (False, after_startup m)"
    by (rule run_startup_failed)
  moreover from False have "performed_count (suite (after_startup m))
      \<noteq> successed_count (suite (after_startup m))"
    by (simp add: UT_IS_TEST_SUITE_SUCCESSED_def UT_IS_TEST_SUITE_STARTED_def
        after_startup_simps)
  ultimately show ?thesis using False by (intro exI[of _ False] exI[of _ "after_startup m"]) simp
next
  case True
  let ?m' = "run_teardown (after_tests m)"
  from assms have "length (test_descs (suite m)) < 2 ^ 32" by simp
  then have "ut_run_test_suite m = Some (UT_IS_TEST_SUITE_SUCCESSED (suite ?m'), ?m')"
    using True by (rule run_returns)
  moreover have "UT_IS_TEST_SUITE_SUCCESSED (suite ?m')
      \<longleftrightarrow> performed_count (suite ?m') = successed_count (suite ?m')"
    by (simp add: UT_IS_TEST_SUITE_SUCCESSED_def UT_IS_TEST_SUITE_STARTED_def final_simps(3))
  moreover have "performed_count (suite ?m') = successed_count (suite ?m')
     \<longleftrightarrow> (\<forall>t\<in>set (test_descs (suite ?m')). UT_IS_TEST_SUCCESSED t)
         \<and> \<not> fails (teardown (suite m)) (prog (after_tests m))"
    using final_equal_iff[OF assms] True by (simp add: startup_ok_iff final_simps(4))
  ultimately show ?thesis using True by simp
qed

theorem verdict_iff_witness:
  "length (test_descs (suite (loaded counter_suite 0))) < 2 ^ 32 - 1
   \<and> (\<exists>verdict m'. ut_run_test_suite (loaded counter_suite 0) = Some (verdict, m')
        \<and> (verdict \<longleftrightarrow> performed_count (suite m') = successed_count (suite m'))
        \<and> (verdict \<longleftrightarrow>
              UT_IS_TEST_SUITE_SUCCESSED (suite (after_startup (loaded counter_suite 0)))
              \<and> (\<forall>t\<in>set (test_descs (suite m')). UT_IS_TEST_SUCCESSED t)
              \<and> \<not> fails (teardown (suite (loaded counter_suite 0)))
                    (prog (after_tests (loaded counter_suite 0)))))"
  using verdict_iff [of "loaded counter_suite 0"]
  by (simp add: counter_suite_hyps)

subsection \<open>C3: a failed startup\<close>

text \<open>
  C3. When \<^verbatim>\<open>startup\<close> leaves the suite failed (the suite's \<open>performed_count\<close> differs
  from its \<open>successed_count\<close> when it returns), the runner returns false at once, with
  the memory as \<^verbatim>\<open>startup\<close> left it: the array of test descriptors is as it was, the
  suite's counters hold the checks of \<^verbatim>\<open>startup\<close> and nothing else, and what the run
  has reported is the call of \<^verbatim>\<open>startup\<close> and the reports of its checks, among which
  there is no call of \<^verbatim>\<open>teardown\<close>, of \<^verbatim>\<open>before_each\<close>, of a test's function or of
  \<^verbatim>\<open>after_each\<close>, and no successful-test or failed-test report.
\<close>

theorem startup_failure_skips_all:
  assumes "performed_count (suite (after_startup m)) \<noteq> successed_count (suite (after_startup m))"
  shows "ut_run_test_suite m = Some (False, after_startup m)
    \<and> test_descs (suite (after_startup m)) = test_descs (suite m)
    \<and> performed_count (suite (after_startup m)) = of_nat (checks (startup (suite m)) (prog m))
    \<and> successed_count (suite (after_startup m)) = of_nat (passes (startup (suite m)) (prog m))
    \<and> trace (after_startup m) = trace m @ CallStartup # reports (startup (suite m)) (prog m)
    \<and> CallTeardown \<notin> set (reports (startup (suite m)) (prog m))
    \<and> (\<forall>i. OnSuccessfulTest i \<notin> set (reports (startup (suite m)) (prog m))
          \<and> OnFailedTest i \<notin> set (reports (startup (suite m)) (prog m))
          \<and> CallBeforeEach i \<notin> set (reports (startup (suite m)) (prog m))
          \<and> CallFunc i \<notin> set (reports (startup (suite m)) (prog m))
          \<and> CallAfterEach i \<notin> set (reports (startup (suite m)) (prog m)))"
proof -
  from assms have "\<not> UT_IS_TEST_SUITE_SUCCESSED (suite (after_startup m))"
    by (simp add: UT_IS_TEST_SUITE_SUCCESSED_def)
  then have "ut_run_test_suite m = Some (False, after_startup m)"
    by (rule run_startup_failed)
  then show ?thesis
    by (simp add: after_startup_simps reports_no_calls)
qed

theorem startup_failure_skips_all_witness:
  "performed_count (suite (after_startup (loaded broken_startup_suite 0)))
     \<noteq> successed_count (suite (after_startup (loaded broken_startup_suite 0)))
   \<and> ut_run_test_suite (loaded broken_startup_suite 0)
       = Some (False, after_startup (loaded broken_startup_suite 0))
   \<and> test_descs (suite (after_startup (loaded broken_startup_suite 0)))
       = [UT_ADD_TEST ''only'' ''never run'' ''broken.c'' 5 [holds]]
   \<and> performed_count (suite (after_startup (loaded broken_startup_suite 0))) = 2
   \<and> successed_count (suite (after_startup (loaded broken_startup_suite 0))) = 1
   \<and> trace (after_startup (loaded broken_startup_suite 0))
       = [CallStartup, OnSuccessfulAssert ''holds'', OnFailedAssert ''breaks'']"
  using startup_failure_skips_all [of "loaded broken_startup_suite 0"]
  by (simp add: after_startup_simps broken_startup_suite_def example_defs checks_def)

subsection \<open>C4: every test is attempted\<close>

text \<open>
  C4, as stated, fails: the suite's \<open>performed_count\<close> also counts the checks of
  \<^verbatim>\<open>startup\<close>. A suite with no test and a \<^verbatim>\<open>startup\<close> that makes one check, which
  holds, ends with \<open>performed_count = 1\<close> and \<open>successed_count = 1\<close>, not 0.
\<close>

theorem performed_count_not_number_of_tests:
  "UT_IS_TEST_SUITE_SUCCESSED (suite (after_startup (loaded empty_suite 0)))
   \<and> length (test_descs (suite (loaded empty_suite 0))) = 0
   \<and> ut_run_test_suite (loaded empty_suite 0) =
       Some (True,
         \<lparr>suite = empty_suite\<lparr>started := True, performed_count := 1, successed_count := 1\<rparr>,
          prog = 0, trace = [CallStartup, OnSuccessfulAssert ''holds'', CallTeardown]\<rparr>)
   \<and> performed_count (empty_suite\<lparr>started := True, performed_count := 1,
         successed_count := 1\<rparr>) \<noteq> 0"
  by (simp add: empty_suite_run startup_ok_iff) (simp add: empty_suite_def example_defs)

text \<open>
  C4, amended. For a suite with \<open>N < 2^32\<close> tests whose \<^verbatim>\<open>startup\<close> does not fail, the
  run returns; \<^verbatim>\<open>before_each\<close> has been called for the tests \<open>0, ..., N - 1\<close> in this
  order, whatever their outcomes; and the suite's \<open>performed_count\<close> is, modulo \<open>2^32\<close>,
  \<open>N\<close> plus the number of checks performed by \<^verbatim>\<open>startup\<close> and by \<^verbatim>\<open>teardown\<close>. When
  these two perform no check it is \<open>N\<close> exactly; if moreover the suite has no test,
  both counters are 0 and the verdict is success.
\<close>

theorem all_tests_attempted:
  assumes "length (test_descs (suite m)) < 2 ^ 32"
    and "UT_IS_TEST_SUITE_SUCCESSED (suite (after_startup m))"
  shows "\<exists>verdict m'. ut_run_test_suite m = Some (verdict, m')
    \<and> attempted (trace m') = attempted (trace m) @ [0..<length (test_descs (suite m))]
    \<and> performed_count (suite m') =
        of_nat (length (test_descs (suite m)) + checks (startup (suite m)) (prog m)
                + checks (teardown (suite m)) (prog (after_tests m)))
    \<and> (checks (startup (suite m)) (prog m) = 0
        \<and> checks (teardown (suite m)) (prog (after_tests m)) = 0 \<longrightarrow>
          unat (performed_count (suite m')) = length (test_descs (suite m)))
    \<and> (test_descs (suite m) = [] \<and> checks (startup (suite m)) (prog m) = 0
        \<and> checks (teardown (suite m)) (prog (after_tests m)) = 0 \<longrightarrow>
          verdict \<and> performed_count (suite m') = 0 \<and> successed_count (suite m') = 0)"
proof -
  let ?m' = "run_teardown (after_tests m)"
  have run: "ut_run_test_suite m = Some (UT_IS_TEST_SUITE_SUCCESSED (suite ?m'), ?m')"
    using assms by (rule run_returns)
  have none: "test_descs (suite (after_tests m)) = []" if "test_descs (suite m) = []"
    using that before_test_frame(1)[of "length (test_descs (suite m))" m]
    by (simp add: after_tests_def)
  have "unat (performed_count (suite ?m')) = length (test_descs (suite m))"
    if "checks (startup (suite m)) (prog m) = 0"
      "checks (teardown (suite m)) (prog (after_tests m)) = 0"
    using that assms(1) by (simp add: final_simps unat_of_nat)
  moreover have "UT_IS_TEST_SUITE_SUCCESSED (suite ?m') \<and> performed_count (suite ?m') = 0
      \<and> successed_count (suite ?m') = 0"
    if "test_descs (suite m) = []" "checks (startup (suite m)) (prog m) = 0"
      "checks (teardown (suite m)) (prog (after_tests m)) = 0"
    using that none
    by (simp add: final_simps checks_0_passes UT_IS_TEST_SUITE_SUCCESSED_def
        UT_IS_TEST_SUITE_STARTED_def)
  ultimately show ?thesis
    using run by (simp add: final_simps add.commute add.left_commute)
qed

theorem all_tests_attempted_witness:
  "length (test_descs (suite (loaded counter_suite 0))) < 2 ^ 32
   \<and> UT_IS_TEST_SUITE_SUCCESSED (suite (after_startup (loaded counter_suite 0)))
   \<and> (\<exists>verdict m'. ut_run_test_suite (loaded counter_suite 0) = Some (verdict, m')
        \<and> attempted (trace m') = [0, 1, 2]
        \<and> performed_count (suite m') = 5)"
proof -
  have len: "length (test_descs (suite (loaded counter_suite 0))) < 2 ^ 32"
    and ok: "UT_IS_TEST_SUITE_SUCCESSED (suite (after_startup (loaded counter_suite 0)))"
    by (simp_all add: counter_suite_hyps)
  have upt: "[0..<3] = [0, 1, 2]" by (simp add: upt_rec)
  from all_tests_attempted [OF len ok] show ?thesis
    using len ok
    by (auto simp add: counter_suite_hyps counter_suite_teardown_checks upt)
qed

subsection \<open>C5: after_each\<close>

text \<open>
  C5. Take any pass through the loop body, for the test \<open>i\<close>. Whatever \<^verbatim>\<open>before_each\<close>
  and the test's function did (it ran to its end, was left by a failed check, or was not
  called), the pass ends as follows: \<^verbatim>\<open>after_each\<close> is called on the descriptor of the
  test, in the state in which the step before left the program under test; what it
  leaves (the counters of the test, the state of the program under test, the reports of
  its checks) is what the pass leaves, up to the runner's tally; and the pass has made
  exactly one such call. In the run of a suite whose \<^verbatim>\<open>startup\<close> does not fail (with
  fewer than \<open>2^32\<close> tests, so that the loop ends) this holds for each test: the run has
  made exactly one call of \<^verbatim>\<open>after_each\<close> for it, the test's descriptor at the end of
  the run is as that call left it, and the reports of the call are part of what the
  run has reported.
\<close>

theorem after_each_once:
  "(i < length (test_descs (suite m)) \<longrightarrow>
      (case call (after_each (suite m))
              (test_descs (suite (at_after_each i m)) ! i, prog (at_after_each i m),
               trace (at_after_each i m) @ [CallAfterEach i]) of
         (t, u, out) \<Rightarrow>
           test_descs (suite (run_test i m)) ! i = t
           \<and> prog (run_test i m) = u
           \<and> trace (run_test i m) =
               out @ [if UT_IS_TEST_SUCCESSED t then OnSuccessfulTest i else OnFailedTest i]))
   \<and> count_list (trace (run_test i m)) (CallAfterEach i)
       = count_list (trace m) (CallAfterEach i) + 1
   \<and> (length (test_descs (suite m)) < 2 ^ 32
        \<and> UT_IS_TEST_SUITE_SUCCESSED (suite (after_startup m)) \<longrightarrow>
      (\<exists>verdict m'. ut_run_test_suite m = Some (verdict, m')
        \<and> (\<forall>i < length (test_descs (suite m)).
             count_list (trace m') (CallAfterEach i)
               = count_list (trace m) (CallAfterEach i) + 1
             \<and> (case call (after_each (suite m))
                       (test_descs (suite (at_after_each i (before_test i m))) ! i,
                        prog (at_after_each i (before_test i m)),
                        trace (at_after_each i (before_test i m)) @ [CallAfterEach i]) of
                  (t, u, out) \<Rightarrow>
                    test_descs (suite m') ! i = t
                    \<and> prog (before_test (Suc i) m) = u
                    \<and> (\<exists>rest. trace m' = out @ rest)))))"
proof -
  have pass: "case call (after_each (suite m))
              (test_descs (suite (at_after_each i m)) ! i, prog (at_after_each i m),
               trace (at_after_each i m) @ [CallAfterEach i]) of
         (t, u, out) \<Rightarrow>
           test_descs (suite (run_test i m)) ! i = t
           \<and> prog (run_test i m) = u
           \<and> trace (run_test i m) =
               out @ [if UT_IS_TEST_SUCCESSED t then OnSuccessfulTest i else OnFailedTest i]"
    if i: "i < length (test_descs (suite m))"
  proof -
    obtain t u out where c: "call (after_each (suite m))
              (test_descs (suite (at_after_each i m)) ! i, prog (at_after_each i m),
               trace (at_after_each i m) @ [CallAfterEach i]) = (t, u, out)"
      by (rule prod_cases3)
    show ?thesis
      using run_test_after_each[OF i c] by (simp only: c prod.case)
  qed
  have run: "case call (after_each (suite m))
                       (test_descs (suite (at_after_each i (before_test i m))) ! i,
                        prog (at_after_each i (before_test i m)),
                        trace (at_after_each i (before_test i m)) @ [CallAfterEach i]) of
                  (t, u, out) \<Rightarrow>
                    test_descs (suite (run_teardown (after_tests m))) ! i = t
                    \<and> prog (before_test (Suc i) m) = u
                    \<and> (\<exists>rest. trace (run_teardown (after_tests m)) = out @ rest)"
    if i: "i < length (test_descs (suite m))" for i
  proof -
    let ?b = "before_test i m"
    have ib: "i < length (test_descs (suite ?b))"
      using i by (simp add: before_test_frame)
    obtain t u out where c: "call (after_each (suite ?b))
              (test_descs (suite (at_after_each i ?b)) ! i, prog (at_after_each i ?b),
               trace (at_after_each i ?b) @ [CallAfterEach i]) = (t, u, out)"
      by (rule prod_cases3)
    note r = run_test_after_each[OF ib c]
    from final_trace_after_pass[OF i] obtain rest where
      "trace (run_teardown (after_tests m)) = trace (run_test i ?b) @ rest"
      by (auto simp add: before_test_Suc)
    then have "\<exists>rest. trace (run_teardown (after_tests m)) = out @ rest"
      by (simp add: r(3))
    moreover have "test_descs (suite (run_teardown (after_tests m))) ! i = t"
      using final_test[OF i] r(1) by (simp add: before_test_Suc)
    moreover have "prog (before_test (Suc i) m) = u"
      using r(2) by (simp add: before_test_Suc)
    moreover have "call (after_each (suite m))
              (test_descs (suite (at_after_each i ?b)) ! i, prog (at_after_each i ?b),
               trace (at_after_each i ?b) @ [CallAfterEach i]) = (t, u, out)"
      using c by (simp add: before_test_frame)
    ultimately show ?thesis by (simp only: prod.case) 
  qed
  have count: "count_list (trace (run_test i m)) (CallAfterEach i)
       = count_list (trace m) (CallAfterEach i) + 1"
    by (simp add: run_test_count_after_each)
  have whole: "\<exists>verdict m'. ut_run_test_suite m = Some (verdict, m')
        \<and> (\<forall>i < length (test_descs (suite m)).
             count_list (trace m') (CallAfterEach i)
               = count_list (trace m) (CallAfterEach i) + 1
             \<and> (case call (after_each (suite m))
                       (test_descs (suite (at_after_each i (before_test i m))) ! i,
                        prog (at_after_each i (before_test i m)),
                        trace (at_after_each i (before_test i m)) @ [CallAfterEach i]) of
                  (t, u, out) \<Rightarrow>
                    test_descs (suite m') ! i = t
                    \<and> prog (before_test (Suc i) m) = u
                    \<and> (\<exists>rest. trace m' = out @ rest)))"
    if "length (test_descs (suite m)) < 2 ^ 32"
      "UT_IS_TEST_SUITE_SUCCESSED (suite (after_startup m))"
  proof (intro exI conjI allI impI)
    show "ut_run_test_suite m = Some (UT_IS_TEST_SUITE_SUCCESSED
        (suite (run_teardown (after_tests m))), run_teardown (after_tests m))"
      using that by (rule run_returns)
  next
    fix i assume "i < length (test_descs (suite m))"
    then show "count_list (trace (run_teardown (after_tests m))) (CallAfterEach i)
               = count_list (trace m) (CallAfterEach i) + 1"
      by (simp add: after_tests_count_after_each)
  next
    fix i assume "i < length (test_descs (suite m))"
    then show "case call (after_each (suite m))
                       (test_descs (suite (at_after_each i (before_test i m))) ! i,
                        prog (at_after_each i (before_test i m)),
                        trace (at_after_each i (before_test i m)) @ [CallAfterEach i]) of
                  (t, u, out) \<Rightarrow>
                    test_descs (suite (run_teardown (after_tests m))) ! i = t
                    \<and> prog (before_test (Suc i) m) = u
                    \<and> (\<exists>rest. trace (run_teardown (after_tests m)) = out @ rest)"
      by (rule run)
  qed
  from pass count whole show ?thesis by blast
qed

theorem after_each_once_witness:
  "length (test_descs (suite (loaded counter_suite 0))) < 2 ^ 32
   \<and> UT_IS_TEST_SUITE_SUCCESSED (suite (after_startup (loaded counter_suite 0)))
   \<and> (\<exists>verdict m'. ut_run_test_suite (loaded counter_suite 0) = Some (verdict, m')
        \<and> count_list (trace m') (CallAfterEach 0) = 1
        \<and> count_list (trace m') (CallAfterEach 1) = 1
        \<and> count_list (trace m') (CallAfterEach 2) = 1
        \<and> prog (before_test 1 (loaded counter_suite 0)) = 1
        \<and> (\<exists>rest. trace m' =
              [CallStartup, OnSuccessfulAssert ''fresh'', CallBeforeEach 0,
               OnSuccessfulAssert ''fixture'', CallFunc 0, OnSuccessfulAssert ''is 0'',
               CallAfterEach 0] @ rest))"
proof -
  let ?m = "loaded counter_suite 0"
  have len: "length (test_descs (suite ?m)) < 2 ^ 32"
    and ok: "UT_IS_TEST_SUITE_SUCCESSED (suite (after_startup ?m))"
    by (simp_all add: counter_suite_hyps)
  from after_each_once [of 0 ?m] len ok obtain verdict m'
    where run: "ut_run_test_suite ?m = Some (verdict, m')"
      and each: "\<And>i. i < 3 \<Longrightarrow>
        count_list (trace m') (CallAfterEach i) = count_list (trace ?m) (CallAfterEach i) + 1
        \<and> (case call (after_each (suite ?m))
                 (test_descs (suite (at_after_each i (before_test i ?m))) ! i,
                  prog (at_after_each i (before_test i ?m)),
                  trace (at_after_each i (before_test i ?m)) @ [CallAfterEach i]) of
               (t, u, out) \<Rightarrow>
                 test_descs (suite m') ! i = t
                 \<and> prog (before_test (Suc i) ?m) = u
                 \<and> (\<exists>rest. trace m' = out @ rest))"
    by (auto simp add: counter_suite_hyps)
  have counts: "count_list (trace m') (CallAfterEach 0) = 1"
    "count_list (trace m') (CallAfterEach 1) = 1"
    "count_list (trace m') (CallAfterEach 2) = 1"
    using each[of 0] each[of 1] each[of 2] by (simp_all add: counter_suite_hyps)
  obtain t u out where c: "call (after_each (suite ?m))
         (test_descs (suite (at_after_each 0 (before_test 0 ?m))) ! 0,
          prog (at_after_each 0 (before_test 0 ?m)),
          trace (at_after_each 0 (before_test 0 ?m)) @ [CallAfterEach 0]) = (t, u, out)"
    by (rule prod_cases3)
  from counter_suite_after_each_0 have uo: "u = 1"
    "out = [CallStartup, OnSuccessfulAssert ''fresh'', CallBeforeEach 0,
          OnSuccessfulAssert ''fixture'', CallFunc 0, OnSuccessfulAssert ''is 0'',
          CallAfterEach 0]"
    by (simp_all only: c snd_conv prod.inject)
  from each[of 0] have "prog (before_test (Suc 0) ?m) = u \<and> (\<exists>rest. trace m' = out @ rest)"
    by (simp add: c)
  then have "prog (before_test 1 ?m) = 1" and "\<exists>rest. trace m' =
              [CallStartup, OnSuccessfulAssert ''fresh'', CallBeforeEach 0,
               OnSuccessfulAssert ''fixture'', CallFunc 0, OnSuccessfulAssert ''is 0'',
               CallAfterEach 0] @ rest"
    by (simp_all add: uo)
  with len ok run counts show ?thesis by blast
qed

subsection \<open>C6: the function of a test\<close>

text \<open>
  C6. Take any pass through the loop body, for the test \<open>i\<close>, at the moment
  \<^verbatim>\<open>before_each\<close> has returned. If the test's \<open>performed_count\<close> differs from its
  \<open>successed_count\<close>, the runner goes on to \<^verbatim>\<open>after_each\<close> with the memory as it is:
  the test's function is not called. Otherwise the test's own function is called on the
  descriptor of the test, and what this one call leaves (the counters of the test, the
  state of the program under test, the reports of its checks) is what the runner goes on
  to \<^verbatim>\<open>after_each\<close> with; the pass has made exactly one such call. In the run of a suite
  whose \<^verbatim>\<open>startup\<close> does not fail (with fewer than \<open>2^32\<close> tests, so that the loop
  ends) this holds for each test, and what the run has reported up to the call of
  \<^verbatim>\<open>after_each\<close> for the test is, in the first case, what had been reported when
  \<^verbatim>\<open>before_each\<close> returned and, in the second, what the call of the test's function
  left.
\<close>

theorem func_once_unless_failed:
  "(i < length (test_descs (suite m)) \<longrightarrow>
      (if performed_count (test_descs (suite (at_func i m)) ! i)
          \<noteq> successed_count (test_descs (suite (at_func i m)) ! i)
       then run_func i (at_func i m) = at_func i m
         \<and> count_list (trace (run_test i m)) (CallFunc i) = count_list (trace m) (CallFunc i)
       else (case call (func (test_descs (suite m) ! i))
                   (test_descs (suite (at_func i m)) ! i, prog (at_func i m),
                    trace (at_func i m) @ [CallFunc i]) of
               (t, u, out) \<Rightarrow>
                 run_func i (at_func i m) =
                   \<lparr>suite = (suite (at_func i m))
                       \<lparr>test_descs := (test_descs (suite (at_func i m)))[i := t]\<rparr>,
                    prog = u, trace = out\<rparr>)
         \<and> count_list (trace (run_test i m)) (CallFunc i)
             = count_list (trace m) (CallFunc i) + 1))
   \<and> (length (test_descs (suite m)) < 2 ^ 32
        \<and> UT_IS_TEST_SUITE_SUCCESSED (suite (after_startup m)) \<longrightarrow>
      (\<exists>verdict m'. ut_run_test_suite m = Some (verdict, m')
        \<and> (\<forall>i < length (test_descs (suite m)).
             (if performed_count (test_descs (suite (at_func i (before_test i m))) ! i)
                 \<noteq> successed_count (test_descs (suite (at_func i (before_test i m))) ! i)
              then run_func i (at_func i (before_test i m)) = at_func i (before_test i m)
                \<and> count_list (trace m') (CallFunc i) = count_list (trace m) (CallFunc i)
                \<and> (\<exists>rest. trace m' =
                      trace (at_func i (before_test i m)) @ CallAfterEach i # rest)
              else (case call (func (test_descs (suite m) ! i))
                          (test_descs (suite (at_func i (before_test i m))) ! i,
                           prog (at_func i (before_test i m)),
                           trace (at_func i (before_test i m)) @ [CallFunc i]) of
                      (t, u, out) \<Rightarrow>
                        run_func i (at_func i (before_test i m)) =
                          \<lparr>suite = (suite (at_func i (before_test i m)))
                              \<lparr>test_descs :=
                                 (test_descs (suite (at_func i (before_test i m))))[i := t]\<rparr>,
                           prog = u, trace = out\<rparr>
                        \<and> (\<exists>rest. trace m' = out @ CallAfterEach i # rest))
                \<and> count_list (trace m') (CallFunc i)
                    = count_list (trace m) (CallFunc i) + 1))))"
proof -
  have succ_iff: "UT_IS_TEST_SUCCESSED (test_descs (suite (at_func i x)) ! i)
      \<longleftrightarrow> performed_count (test_descs (suite (at_func i x)) ! i)
          = successed_count (test_descs (suite (at_func i x)) ! i)"
    if "i < length (test_descs (suite x))" for i and x :: "'a machine"
    using that successed_after_before_each[of i x] by (simp add: at_func_def)
  have pass_skip: "run_func i (at_func i x) = at_func i x
      \<and> count_list (trace (run_test i x)) (CallFunc i) = count_list (trace x) (CallFunc i)"
    if "i < length (test_descs (suite x))"
      "performed_count (test_descs (suite (at_func i x)) ! i)
        \<noteq> successed_count (test_descs (suite (at_func i x)) ! i)"
    for i and x :: "'a machine"
    using that run_func_skips[OF that] succ_iff[OF that(1)]
    by (simp add: run_test_count_func at_func_def)
  have pass_call: "(case call (func (test_descs (suite x) ! i))
                   (test_descs (suite (at_func i x)) ! i, prog (at_func i x),
                    trace (at_func i x) @ [CallFunc i]) of
               (t, u, out) \<Rightarrow>
                 run_func i (at_func i x) =
                   \<lparr>suite = (suite (at_func i x))
                       \<lparr>test_descs := (test_descs (suite (at_func i x)))[i := t]\<rparr>,
                    prog = u, trace = out\<rparr>)
         \<and> count_list (trace (run_test i x)) (CallFunc i)
             = count_list (trace x) (CallFunc i) + 1"
    if "i < length (test_descs (suite x))"
      "performed_count (test_descs (suite (at_func i x)) ! i)
        = successed_count (test_descs (suite (at_func i x)) ! i)"
    for i and x :: "'a machine"
  proof -
    obtain t u out where c: "call (func (test_descs (suite x) ! i))
                   (test_descs (suite (at_func i x)) ! i, prog (at_func i x),
                    trace (at_func i x) @ [CallFunc i]) = (t, u, out)"
      by (rule prod_cases3)
    have "count_list (trace (run_test i x)) (CallFunc i) = count_list (trace x) (CallFunc i) + 1"
      using that succ_iff[OF that(1)] by (simp add: run_test_count_func at_func_def)
    with run_func_calls[OF that c] show ?thesis
      by (simp only: c prod.case) 
  qed
  have pass: "if performed_count (test_descs (suite (at_func i m)) ! i)
          \<noteq> successed_count (test_descs (suite (at_func i m)) ! i)
       then run_func i (at_func i m) = at_func i m
         \<and> count_list (trace (run_test i m)) (CallFunc i) = count_list (trace m) (CallFunc i)
       else (case call (func (test_descs (suite m) ! i))
                   (test_descs (suite (at_func i m)) ! i, prog (at_func i m),
                    trace (at_func i m) @ [CallFunc i]) of
               (t, u, out) \<Rightarrow>
                 run_func i (at_func i m) =
                   \<lparr>suite = (suite (at_func i m))
                       \<lparr>test_descs := (test_descs (suite (at_func i m)))[i := t]\<rparr>,
                    prog = u, trace = out\<rparr>)
         \<and> count_list (trace (run_test i m)) (CallFunc i)
             = count_list (trace m) (CallFunc i) + 1"
    if i: "i < length (test_descs (suite m))"
  proof (cases "performed_count (test_descs (suite (at_func i m)) ! i)
          = successed_count (test_descs (suite (at_func i m)) ! i)")
    case True
    then have n: "\<not> performed_count (test_descs (suite (at_func i m)) ! i)
          \<noteq> successed_count (test_descs (suite (at_func i m)) ! i)" by simp
    show ?thesis by (subst if_not_P[OF n]) (rule pass_call[OF i True])
  next
    case False
    show ?thesis by (subst if_P[OF False]) (rule pass_skip[OF i False])
  qed
  have whole: "if performed_count (test_descs (suite (at_func i (before_test i m))) ! i)
                 \<noteq> successed_count (test_descs (suite (at_func i (before_test i m))) ! i)
              then run_func i (at_func i (before_test i m)) = at_func i (before_test i m)
                \<and> count_list (trace (run_teardown (after_tests m))) (CallFunc i)
                    = count_list (trace m) (CallFunc i)
                \<and> (\<exists>rest. trace (run_teardown (after_tests m)) =
                      trace (at_func i (before_test i m)) @ CallAfterEach i # rest)
              else (case call (func (test_descs (suite m) ! i))
                          (test_descs (suite (at_func i (before_test i m))) ! i,
                           prog (at_func i (before_test i m)),
                           trace (at_func i (before_test i m)) @ [CallFunc i]) of
                      (t, u, out) \<Rightarrow>
                        run_func i (at_func i (before_test i m)) =
                          \<lparr>suite = (suite (at_func i (before_test i m)))
                              \<lparr>test_descs :=
                                 (test_descs (suite (at_func i (before_test i m))))[i := t]\<rparr>,
                           prog = u, trace = out\<rparr>
                        \<and> (\<exists>rest. trace (run_teardown (after_tests m))
                              = out @ CallAfterEach i # rest))
                \<and> count_list (trace (run_teardown (after_tests m))) (CallFunc i)
                    = count_list (trace m) (CallFunc i) + 1"
    if i: "i < length (test_descs (suite m))" for i
  proof -
    let ?b = "before_test i m"
    let ?t2 = "test_descs (suite (at_func i ?b)) ! i"
    have ib: "i < length (test_descs (suite ?b))"
      using i by (simp add: before_test_frame)
    have cnt: "count_list (trace (run_teardown (after_tests m))) (CallFunc i) =
        count_list (trace m) (CallFunc i)
        + (if performed_count ?t2 = successed_count ?t2 then 1 else 0)"
      using i succ_iff[OF ib] by (simp add: after_tests_count_func at_func_def)
    from final_trace_after_func[OF i] obtain rest where
      tr: "trace (run_teardown (after_tests m))
        = trace (run_func i (at_func i ?b)) @ CallAfterEach i # rest"
      by (auto simp add: at_after_each_def)
    show ?thesis
    proof (cases "performed_count ?t2 = successed_count ?t2")
      case False
      with pass_skip[OF ib] have "run_func i (at_func i ?b) = at_func i ?b" by simp
      with tr cnt False show ?thesis by simp
    next
      case True
      obtain t u out where c: "call (func (test_descs (suite m) ! i))
                          (?t2, prog (at_func i ?b), trace (at_func i ?b) @ [CallFunc i])
                        = (t, u, out)"
        by (rule prod_cases3)
      then have "call (func (test_descs (suite ?b) ! i))
                          (?t2, prog (at_func i ?b), trace (at_func i ?b) @ [CallFunc i])
                        = (t, u, out)"
        by (simp add: before_test_this)
      from run_func_calls[OF ib True this]
      have r: "run_func i (at_func i ?b) =
           \<lparr>suite = (suite (at_func i ?b))
               \<lparr>test_descs := (test_descs (suite (at_func i ?b)))[i := t]\<rparr>,
            prog = u, trace = out\<rparr>" .
      then have "trace (run_func i (at_func i ?b)) = out" by simp
      with tr have "\<exists>rest. trace (run_teardown (after_tests m)) = out @ CallAfterEach i # rest"
        by simp
      with r cnt True show ?thesis by (simp only: c prod.case if_False simp_thms) simp
    qed
  qed
  have run: "\<exists>verdict m'. ut_run_test_suite m = Some (verdict, m')
        \<and> (\<forall>i < length (test_descs (suite m)).
             (if performed_count (test_descs (suite (at_func i (before_test i m))) ! i)
                 \<noteq> successed_count (test_descs (suite (at_func i (before_test i m))) ! i)
              then run_func i (at_func i (before_test i m)) = at_func i (before_test i m)
                \<and> count_list (trace m') (CallFunc i) = count_list (trace m) (CallFunc i)
                \<and> (\<exists>rest. trace m' =
                      trace (at_func i (before_test i m)) @ CallAfterEach i # rest)
              else (case call (func (test_descs (suite m) ! i))
                          (test_descs (suite (at_func i (before_test i m))) ! i,
                           prog (at_func i (before_test i m)),
                           trace (at_func i (before_test i m)) @ [CallFunc i]) of
                      (t, u, out) \<Rightarrow>
                        run_func i (at_func i (before_test i m)) =
                          \<lparr>suite = (suite (at_func i (before_test i m)))
                              \<lparr>test_descs :=
                                 (test_descs (suite (at_func i (before_test i m))))[i := t]\<rparr>,
                           prog = u, trace = out\<rparr>
                        \<and> (\<exists>rest. trace m' = out @ CallAfterEach i # rest))
                \<and> count_list (trace m') (CallFunc i)
                    = count_list (trace m) (CallFunc i) + 1))"
    if "length (test_descs (suite m)) < 2 ^ 32"
      "UT_IS_TEST_SUITE_SUCCESSED (suite (after_startup m))"
  proof (intro exI conjI allI impI)
    show "ut_run_test_suite m = Some (UT_IS_TEST_SUITE_SUCCESSED
        (suite (run_teardown (after_tests m))), run_teardown (after_tests m))"
      using that by (rule run_returns)
  qed (rule whole)
  from pass run show ?thesis by blast
qed

theorem func_once_unless_failed_witness:
  "length (test_descs (suite (loaded counter_suite 0))) < 2 ^ 32
   \<and> UT_IS_TEST_SUITE_SUCCESSED (suite (after_startup (loaded counter_suite 0)))
   \<and> (\<exists>verdict m'. ut_run_test_suite (loaded counter_suite 0) = Some (verdict, m')
        \<and> count_list (trace m') (CallFunc 0) = 1
        \<and> count_list (trace m') (CallFunc 1) = 1
        \<and> count_list (trace m') (CallFunc 2) = 0
        \<and> run_func 2 (at_func 2 (before_test 2 (loaded counter_suite 0)))
            = at_func 2 (before_test 2 (loaded counter_suite 0))
        \<and> (\<exists>rest. trace m' =
              [CallStartup, OnSuccessfulAssert ''fresh'', CallBeforeEach 0,
               OnSuccessfulAssert ''fixture'', CallFunc 0, OnSuccessfulAssert ''is 0'',
               CallAfterEach 0] @ rest))"
proof -
  let ?m = "loaded counter_suite 0"
  let ?t = "\<lambda>i. test_descs (suite (at_func i (before_test i ?m))) ! i"
  have len: "length (test_descs (suite ?m)) < 2 ^ 32"
    and ok: "UT_IS_TEST_SUITE_SUCCESSED (suite (after_startup ?m))"
    by (simp_all add: counter_suite_hyps)
  have cond: "performed_count (?t 0) = successed_count (?t 0)"
    "performed_count (?t 1) = successed_count (?t 1)"
    "performed_count (?t 2) \<noteq> successed_count (?t 2)"
    by (simp_all only: at_func_def counter_suite_before_each) simp_all
  from func_once_unless_failed [of 0 ?m] len ok obtain verdict m'
    where run: "ut_run_test_suite ?m = Some (verdict, m')"
      and each: "\<And>i. i < 3 \<Longrightarrow>
        (if performed_count (?t i) \<noteq> successed_count (?t i)
         then run_func i (at_func i (before_test i ?m)) = at_func i (before_test i ?m)
           \<and> count_list (trace m') (CallFunc i) = count_list (trace ?m) (CallFunc i)
           \<and> (\<exists>rest. trace m' = trace (at_func i (before_test i ?m)) @ CallAfterEach i # rest)
         else (case call (func (test_descs (suite ?m) ! i))
                     (?t i, prog (at_func i (before_test i ?m)),
                      trace (at_func i (before_test i ?m)) @ [CallFunc i]) of
                 (t, u, out) \<Rightarrow>
                   run_func i (at_func i (before_test i ?m)) =
                     \<lparr>suite = (suite (at_func i (before_test i ?m)))
                         \<lparr>test_descs := (test_descs (suite (at_func i (before_test i ?m))))
                            [i := t]\<rparr>,
                      prog = u, trace = out\<rparr>
                   \<and> (\<exists>rest. trace m' = out @ CallAfterEach i # rest))
           \<and> count_list (trace m') (CallFunc i) = count_list (trace ?m) (CallFunc i) + 1)"
    by (auto simp add: counter_suite_hyps)
  have c0: "count_list (trace m') (CallFunc 0) = 1"
    using each[of 0] cond(1) by (simp add: counter_suite_hyps)
  have c1: "count_list (trace m') (CallFunc 1) = 1"
    using each[of 1] cond(2) by (simp add: counter_suite_hyps)
  have c2: "count_list (trace m') (CallFunc 2) = 0"
    "run_func 2 (at_func 2 (before_test 2 ?m)) = at_func 2 (before_test 2 ?m)"
    using each[of 2] cond(3) by (simp_all add: counter_suite_hyps)
  obtain t u out where c: "call (func (test_descs (suite ?m) ! 0))
         (?t 0, prog (at_func 0 (before_test 0 ?m)),
          trace (at_func 0 (before_test 0 ?m)) @ [CallFunc 0]) = (t, u, out)"
    by (rule prod_cases3)
  from counter_suite_func_0 have out:
    "out = [CallStartup, OnSuccessfulAssert ''fresh'', CallBeforeEach 0,
          OnSuccessfulAssert ''fixture'', CallFunc 0, OnSuccessfulAssert ''is 0'']"
    by (simp_all only: c snd_conv prod.inject)
  from each[of 0] cond(1) have "\<exists>rest. trace m' = out @ CallAfterEach 0 # rest"
    by (simp add: c)
  then have "\<exists>rest. trace m' =
              [CallStartup, OnSuccessfulAssert ''fresh'', CallBeforeEach 0,
               OnSuccessfulAssert ''fixture'', CallFunc 0, OnSuccessfulAssert ''is 0'',
               CallAfterEach 0] @ rest"
    by (simp add: out)
  with len ok run c0 c1 c2 show ?thesis by blast
qed

subsection \<open>C7: the invariant of the counters\<close>




subsection \<open>C8: running a suite again\<close>




subsection \<open>C9: checks in startup and teardown\<close>

text \<open>
  C9, as stated, fails where the counter wraps around. The \<^verbatim>\<open>startup\<close> of this suite
  makes \<open>2^32\<close> checks, all of which hold; the suite has no test. The run is successful
  and leaves the suite's \<open>performed_count\<close> at 0, which does not exceed the number of
  tests attempted, 0.
\<close>

theorem startup_checks_wrap_around:
  "passes (startup long_startup_suite) 0 = 4294967296
   \<and> \<not> fails (startup long_startup_suite) 0
   \<and> ut_run_test_suite (loaded long_startup_suite 0) = Some (True, long_startup_left)
   \<and> performed_count (suite long_startup_left) = 0
   \<and> length (test_descs (suite long_startup_left)) = 0"
  by (simp add: long_startup_run)
    (simp add: long_startup_left_def long_startup_suite_def UT_DECLARE_TEST_SUITE_def
      replicate_holds_Nil)

text \<open>
  C9, amended. In the run of a suite (with fewer than \<open>2^32\<close> tests) whose \<^verbatim>\<open>startup\<close>
  does not fail, the suite's counters at the end hold, modulo \<open>2^32\<close>, the checks of
  \<^verbatim>\<open>startup\<close>, the tests and the checks of \<^verbatim>\<open>teardown\<close> together, and the verdict
  compares them. So when every test ended successful and a check of \<^verbatim>\<open>teardown\<close>
  fails, the verdict is false; and when a check of \<^verbatim>\<open>startup\<close> holds, the final
  \<open>performed_count\<close> exceeds the number of tests, provided it has not wrapped around
  (the tests and the checks of both hooks are fewer than \<open>2^32\<close> together).
\<close>

theorem hook_checks_count_on_suite:
  assumes "length (test_descs (suite m)) < 2 ^ 32"
    and "UT_IS_TEST_SUITE_SUCCESSED (suite (after_startup m))"
  shows "\<exists>verdict m'. ut_run_test_suite m = Some (verdict, m')
    \<and> performed_count (suite m') =
        of_nat (checks (startup (suite m)) (prog m))
        + of_nat (length (test_descs (suite m)))
        + of_nat (checks (teardown (suite m)) (prog (after_tests m)))
    \<and> successed_count (suite m') =
        of_nat (passes (startup (suite m)) (prog m))
        + of_nat (length (filter UT_IS_TEST_SUCCESSED (test_descs (suite m'))))
        + of_nat (passes (teardown (suite m)) (prog (after_tests m)))
    \<and> (verdict \<longleftrightarrow> performed_count (suite m') = successed_count (suite m'))
    \<and> ((\<forall>t\<in>set (test_descs (suite m')). UT_IS_TEST_SUCCESSED t)
        \<and> fails (teardown (suite m)) (prog (after_tests m)) \<longrightarrow> \<not> verdict)
    \<and> (0 < passes (startup (suite m)) (prog m)
        \<and> length (test_descs (suite m)) + checks (startup (suite m)) (prog m)
            + checks (teardown (suite m)) (prog (after_tests m)) < 2 ^ 32 \<longrightarrow>
          length (test_descs (suite m)) < unat (performed_count (suite m')))"
proof -
  let ?m' = "run_teardown (after_tests m)"
  let ?N = "length (test_descs (suite m))"
  let ?cs = "checks (startup (suite m)) (prog m)"
  let ?ct = "checks (teardown (suite m)) (prog (after_tests m))"
  have run: "ut_run_test_suite m = Some (UT_IS_TEST_SUITE_SUCCESSED (suite ?m'), ?m')"
    using assms by (rule run_returns)
  have v: "UT_IS_TEST_SUITE_SUCCESSED (suite ?m')
      \<longleftrightarrow> performed_count (suite ?m') = successed_count (suite ?m')"
    by (simp add: UT_IS_TEST_SUITE_SUCCESSED_def UT_IS_TEST_SUITE_STARTED_def final_simps(3))
  have lts: "length (test_descs (suite (after_tests m))) = ?N"
    by (simp add: after_tests_def before_test_frame)
  have su: "?cs = passes (startup (suite m)) (prog m)"
    using assms(2) by (simp add: startup_ok_iff checks_def)
  have td: "performed_count (suite ?m') \<noteq> successed_count (suite ?m')"
    if all: "\<forall>t\<in>set (test_descs (suite ?m')). UT_IS_TEST_SUCCESSED t"
      and f: "fails (teardown (suite m)) (prog (after_tests m))"
  proof -
    from all have "length (filter UT_IS_TEST_SUCCESSED (test_descs (suite (after_tests m)))) = ?N"
      using lts by (simp add: final_simps(4) length_filter_eq_iff[THEN iffD2])
    then show ?thesis using f su by (simp add: final_simps checks_def)
  qed
  have ex: "?N < unat (performed_count (suite ?m'))"
    if "0 < passes (startup (suite m)) (prog m)" "?N + ?cs + ?ct < 2 ^ 32"
  proof -
    have "performed_count (suite ?m') = of_nat (?N + ?cs + ?ct)"
      by (simp add: final_simps add.commute add.left_commute)
    then have "unat (performed_count (suite ?m')) = ?N + ?cs + ?ct"
      using unat_of_nat_uint[OF that(2)] by (simp only:)
    then show ?thesis using that(1) su by simp
  qed
  show ?thesis
    using run v td ex by (simp add: final_simps)
qed

theorem hook_checks_count_on_suite_witness:
  "length (test_descs (suite (loaded broken_teardown_suite 0))) < 2 ^ 32
   \<and> UT_IS_TEST_SUITE_SUCCESSED (suite (after_startup (loaded broken_teardown_suite 0)))
   \<and> fails (teardown (suite (loaded broken_teardown_suite 0)))
        (prog (after_tests (loaded broken_teardown_suite 0)))
   \<and> (\<exists>verdict m'. ut_run_test_suite (loaded broken_teardown_suite 0) = Some (verdict, m')
        \<and> \<not> verdict)
   \<and> length (test_descs (suite (loaded counter_suite 0))) < 2 ^ 32
   \<and> UT_IS_TEST_SUITE_SUCCESSED (suite (after_startup (loaded counter_suite 0)))
   \<and> 0 < passes (startup (suite (loaded counter_suite 0))) (prog (loaded counter_suite 0))
   \<and> (\<exists>verdict m'. ut_run_test_suite (loaded counter_suite 0) = Some (verdict, m')
        \<and> performed_count (suite m') = 5
        \<and> length (test_descs (suite (loaded counter_suite 0))) < unat (performed_count (suite m')))"
proof -
  let ?b = "loaded broken_teardown_suite 0" and ?c = "loaded counter_suite 0"
  have b: "length (test_descs (suite ?b)) < 2 ^ 32"
    "UT_IS_TEST_SUITE_SUCCESSED (suite (after_startup ?b))"
    by (simp_all add: startup_ok_iff broken_teardown_suite_def example_defs)
  have bf: "fails (teardown (suite ?b)) (prog (after_tests ?b))"
    by (simp add: broken_teardown_suite_def example_defs)
  have ball: "\<forall>t\<in>set (test_descs (suite (run_teardown (after_tests ?b)))). UT_IS_TEST_SUCCESSED t"
    by code_simp
  have c: "length (test_descs (suite ?c)) < 2 ^ 32"
    "UT_IS_TEST_SUITE_SUCCESSED (suite (after_startup ?c))"
    by (simp_all add: counter_suite_hyps)
  have cp: "passes (startup (suite ?c)) (prog ?c) = 1"
    by code_simp
  have "\<exists>verdict m'. ut_run_test_suite ?b = Some (verdict, m') \<and> \<not> verdict"
    using hook_checks_count_on_suite [OF b] bf ball run_returns [OF b] by auto
  moreover have "\<exists>verdict m'. ut_run_test_suite ?c = Some (verdict, m')
        \<and> performed_count (suite m') = 5
        \<and> length (test_descs (suite ?c)) < unat (performed_count (suite m'))"
    using hook_checks_count_on_suite [OF c] cp
    by (auto simp add: counter_suite_hyps counter_suite_teardown_checks)
  ultimately show ?thesis using b bf c cp by simp
qed

subsection \<open>C10: descriptors never started\<close>

text \<open>
  C10. A descriptor that was never started (\<open>started\<close> is false) is reported failed:
  \<^verbatim>\<open>UT_IS_TEST_FAILED\<close> is the negation of \<^verbatim>\<open>UT_IS_TEST_SUCCESSED\<close>, which requires
  \<open>started\<close>. Such a test is both skipped and failed for the inspection macros, and
  likewise a suite for \<^verbatim>\<open>UT_IS_TEST_SUITE_FAILED\<close>.
\<close>

theorem never_started_is_failed:
  "(\<not> started test_desc \<longrightarrow>
      UT_IS_TEST_FAILED test_desc \<and> UT_IS_TEST_SKIPPED test_desc)
   \<and> (\<not> started test_suite_desc \<longrightarrow>
      UT_IS_TEST_SUITE_FAILED test_suite_desc \<and> UT_IS_TEST_SUITE_SKIPPED test_suite_desc)
   \<and> UT_IS_TEST_FAILED test_desc = (\<not> UT_IS_TEST_SUCCESSED test_desc)
   \<and> UT_IS_TEST_SUITE_FAILED test_suite_desc = (\<not> UT_IS_TEST_SUITE_SUCCESSED test_suite_desc)"
  by (simp add: UT_IS_TEST_FAILED_def UT_IS_TEST_SKIPPED_def UT_IS_TEST_SUCCESSED_def
      UT_IS_TEST_STARTED_def UT_IS_TEST_SUITE_FAILED_def UT_IS_TEST_SUITE_SKIPPED_def
      UT_IS_TEST_SUITE_SUCCESSED_def UT_IS_TEST_SUITE_STARTED_def)

theorem never_started_is_failed_witness:
  "\<not> started (\<lparr>started = False, performed_count = 0, successed_count = 0,
       name = ''t'', description = ''d'', src_file = ''t.c'', src_line = 1,
       func = []\<rparr> :: unit ut_test_desc)
   \<and> UT_IS_TEST_FAILED (\<lparr>started = False, performed_count = 0, successed_count = 0,
       name = ''t'', description = ''d'', src_file = ''t.c'', src_line = 1,
       func = []\<rparr> :: unit ut_test_desc)
   \<and> UT_IS_TEST_SKIPPED (\<lparr>started = False, performed_count = 0, successed_count = 0,
       name = ''t'', description = ''d'', src_file = ''t.c'', src_line = 1,
       func = []\<rparr> :: unit ut_test_desc)
   \<and> UT_IS_TEST_SUITE_FAILED (\<lparr>started = False, performed_count = 0, successed_count = 0,
       suite_name = ''s'', suite_description = ''d'', startup = [], teardown = [],
       before_each = [], after_each = [], test_descs = []\<rparr> :: unit ut_test_suite_desc)
   \<and> UT_IS_TEST_SUITE_SKIPPED (\<lparr>started = False, performed_count = 0, successed_count = 0,
       suite_name = ''s'', suite_description = ''d'', startup = [], teardown = [],
       before_each = [], after_each = [], test_descs = []\<rparr> :: unit ut_test_suite_desc)"
  using never_started_is_failed
    [of "\<lparr>started = False, performed_count = 0, successed_count = 0,
       name = ''t'', description = ''d'', src_file = ''t.c'', src_line = 1,
       func = []\<rparr> :: unit ut_test_desc"
      "\<lparr>started = False, performed_count = 0, successed_count = 0,
       suite_name = ''s'', suite_description = ''d'', startup = [], teardown = [],
       before_each = [], after_each = [], test_descs = []\<rparr> :: unit ut_test_suite_desc"]
  by simp

end
